theory Spec2Isabelle
  imports Complex_Main "HOL-Library.Multiset"
begin

section \<open>Numbers and strings of the host language\<close>

text \<open>
  A JavaScript number that the program only ever obtains from \<^verbatim>\<open>parseInt\<close> or from
  arithmetic on such a value is an integer or NaN.
\<close>

datatype jsnum = Num int | NaN

fun times1000 :: "jsnum \<Rightarrow> jsnum" where
  "times1000 (Num n) = Num (n * 1000)"
| "times1000 NaN = NaN"

text \<open>Truthiness of an optional string: \<^verbatim>\<open>undefined\<close>, \<^verbatim>\<open>null\<close> and the empty string are falsy.\<close>

fun truthy :: "string option \<Rightarrow> bool" where
  "truthy None = False"
| "truthy (Some s) = (s \<noteq> [])"

text \<open>Decimal rendering of a non-negative integer, as a template literal prints it.\<close>

definition digit_char :: "nat \<Rightarrow> char" where
  "digit_char d = char_of (48 + d)"

fun string_of_nat :: "nat \<Rightarrow> string" where
  "string_of_nat n =
     (if n < 10 then [digit_char n] else string_of_nat (n div 10) @ [digit_char (n mod 10)])"

declare string_of_nat.simps [simp del]

text \<open>
  \<^verbatim>\<open>parseInt(s, 10)\<close>: leading white space is skipped, one sign is accepted, then the
  longest run of decimal digits is read; with no digit the result is NaN. Strings are
  modelled as byte strings, so the white space skipped is the ASCII white space.
\<close>

definition is_space :: "char \<Rightarrow> bool" where
  "is_space c = (c \<in> set [CHR '' '', CHR 0x09, CHR 0x0A, CHR 0x0B, CHR 0x0C, CHR 0x0D])"

definition is_digit :: "char \<Rightarrow> bool" where
  "is_digit c = (48 \<le> (of_char c :: nat) \<and> (of_char c :: nat) \<le> 57)"

definition digit_val :: "char \<Rightarrow> nat" where
  "digit_val c = of_char c - 48"

definition digits_val :: "string \<Rightarrow> nat" where
  "digits_val ds = foldl (\<lambda>acc c. acc * 10 + digit_val c) 0 ds"

definition parseInt10 :: "string \<Rightarrow> jsnum" where
  "parseInt10 s =
     (let t = dropWhile is_space s;
          neg = (case t of c # _ \<Rightarrow> c = CHR ''-'' | [] \<Rightarrow> False);
          u = (case t of c # r \<Rightarrow> if c = CHR ''-'' \<or> c = CHR ''+'' then r else t | [] \<Rightarrow> t);
          ds = takeWhile is_digit u
      in if ds = [] then NaN
         else Num (if neg then - int (digits_val ds) else int (digits_val ds)))"

section \<open>Provider types (types/gong.ts)\<close>

text \<open>
  The fields the synchronisation reads. An optional field is an \<open>option\<close>. The time
  stamps of a sentence are numbers of the host language; they are modelled by exact
  rationals, that is, finite numbers whose division by 1000 is not rounded.
\<close>

datatype media_kind = Video | Audio

record GongCall =
  call_id :: string
  call_title :: string
  call_started :: string
  call_duration :: int
  call_media :: media_kind
  call_purpose :: "string option"

record GongParty =
  party_id :: string
  party_emailAddress :: "string option"
  party_name :: "string option"
  party_speakerId :: "string option"

record GongCallMedia =
  audioUrl :: "string option"
  videoUrl :: "string option"

record GongSentence =
  sentence_start :: rat
  sentence_end :: rat
  sentence_text :: string

record GongTranscriptEntry =
  entry_speakerId :: string
  entry_sentences :: "GongSentence list"

record GongCallTranscript =
  callId :: string
  transcript :: "GongTranscriptEntry list"

record call_data =
  metaData :: GongCall
  parties :: "GongParty list option"
  media :: "GongCallMedia option"

section \<open>Transcript transformation (lib/gong/transform.ts)\<close>

record TranscriptSegment =
  seg_id :: string
  startTime :: rat
  endTime :: rat
  speaker :: string
  seg_text :: string

record Speaker =
  spk_id :: string
  spk_name :: string
  spk_color :: string

text \<open>\<^verbatim>\<open>party.name ?? party.emailAddress ?? "Unknown"\<close>\<close>

definition party_display :: "GongParty \<Rightarrow> string" where
  "party_display p =
     (case party_name p of Some n \<Rightarrow> n
      | None \<Rightarrow> (case party_emailAddress p of Some e \<Rightarrow> e | None \<Rightarrow> ''Unknown''))"

fun buildSpeakerMap_loop :: "GongParty list \<Rightarrow> (string \<rightharpoonup> string) \<Rightarrow> (string \<rightharpoonup> string)" where
  "buildSpeakerMap_loop [] m = m"
| "buildSpeakerMap_loop (p # ps) m =
     (let m1 = (if truthy (party_speakerId p)
                then m(the (party_speakerId p) \<mapsto> party_display p) else m);
          m2 = (if party_id p \<noteq> [] then m1(party_id p \<mapsto> party_display p) else m1)
      in buildSpeakerMap_loop ps m2)"

definition buildSpeakerMap :: "GongParty list \<Rightarrow> (string \<rightharpoonup> string)" where
  "buildSpeakerMap ps = buildSpeakerMap_loop ps Map.empty"

text \<open>
  The two nested loops of \<^verbatim>\<open>parseGongTranscript\<close>. The state is the array of segments
  pushed so far and the counter \<^verbatim>\<open>segmentId\<close>, which is incremented before it is printed.
\<close>

fun push_sentences ::
  "string \<Rightarrow> GongSentence list \<Rightarrow> TranscriptSegment list \<times> nat \<Rightarrow> TranscriptSegment list \<times> nat"
where
  "push_sentences speakerName [] st = st"
| "push_sentences speakerName (s # ss) (segments, segmentId) =
     push_sentences speakerName ss
       (segments @
          [\<lparr>seg_id = ''seg-'' @ string_of_nat (Suc segmentId),
            startTime = sentence_start s / 1000,
            endTime = sentence_end s / 1000,
            speaker = speakerName,
            seg_text = sentence_text s\<rparr>],
        Suc segmentId)"

fun push_entries ::
  "(string \<rightharpoonup> string) \<Rightarrow> GongTranscriptEntry list \<Rightarrow> TranscriptSegment list \<times> nat
     \<Rightarrow> TranscriptSegment list \<times> nat"
where
  "push_entries speakerMap [] st = st"
| "push_entries speakerMap (e # es) st =
     (let speakerName = (case speakerMap (entry_speakerId e) of Some n \<Rightarrow> n | None \<Rightarrow> ''Speaker'')
      in push_entries speakerMap es (push_sentences speakerName (entry_sentences e) st))"

text \<open>The segments in the order the loops push them, before the sort.\<close>

definition flattened :: "GongCallTranscript \<Rightarrow> (string \<rightharpoonup> string) \<Rightarrow> TranscriptSegment list" where
  "flattened t speakerMap = fst (push_entries speakerMap (transcript t) ([], 0))"

text \<open>
  \<^verbatim>\<open>segments.sort((a, b) => a.startTime - b.startTime)\<close>: the array sort of the language
  is stable, and the comparator orders by \<^verbatim>\<open>startTime\<close>; it is the stable insertion sort
  by key of HOL.
\<close>

definition parseGongTranscript :: "GongCallTranscript \<Rightarrow> (string \<rightharpoonup> string) \<Rightarrow> TranscriptSegment list" where
  "parseGongTranscript t speakerMap = sort_key startTime (flattened t speakerMap)"

text \<open>lib/constants.ts\<close>

definition SPEAKER_COLORS :: "string list" where
  "SPEAKER_COLORS =
     [''#6366f1'', ''#22c55e'', ''#f59e0b'', ''#ef4444'', ''#8b5cf6'',
      ''#06b6d4'', ''#ec4899'', ''#14b8a6'', ''#f97316'', ''#84cc16'']"

text \<open>
  \<^verbatim>\<open>[...new Set(names)]\<close>: a set of the language keeps insertion order and ignores a value
  it already holds.
\<close>

fun set_add_all :: "'a list \<Rightarrow> 'a list \<Rightarrow> 'a list" where
  "set_add_all seen [] = seen"
| "set_add_all seen (x # xs) = set_add_all (if x \<in> set seen then seen else seen @ [x]) xs"

definition unique_in_order :: "'a list \<Rightarrow> 'a list" where
  "unique_in_order xs = set_add_all [] xs"

text \<open>
  \<^verbatim>\<open>name.toLowerCase().replace(/\s+/g, "-")\<close>, on ASCII text: every maximal run of white
  space becomes one dash. The flag says that the character before was white space.
\<close>

definition to_lower :: "char \<Rightarrow> char" where
  "to_lower c =
     (if 65 \<le> (of_char c :: nat) \<and> (of_char c :: nat) \<le> 90 then char_of (of_char c + (32::nat)) else c)"

fun dash_spaces :: "bool \<Rightarrow> string \<Rightarrow> string" where
  "dash_spaces in_run [] = []"
| "dash_spaces in_run (c # cs) =
     (if is_space c then (if in_run then dash_spaces True cs else CHR ''-'' # dash_spaces True cs)
      else c # dash_spaces False cs)"

definition speaker_slug :: "string \<Rightarrow> string" where
  "speaker_slug name = dash_spaces False (map to_lower name)"

text \<open>\<^verbatim>\<open>speakerNames.map((name, i) => ...)\<close>, the index counted from \<open>i\<close>.\<close>

fun map_speakers :: "nat \<Rightarrow> string list \<Rightarrow> Speaker list" where
  "map_speakers i [] = []"
| "map_speakers i (name # names) =
     \<lparr>spk_id = speaker_slug name,
      spk_name = name,
      spk_color = SPEAKER_COLORS ! (i mod length SPEAKER_COLORS)\<rparr> # map_speakers (Suc i) names"

definition extractSpeakers :: "TranscriptSegment list \<Rightarrow> Speaker list" where
  "extractSpeakers segments = map_speakers 0 (unique_in_order (map speaker segments))"

section \<open>Environment and observable state\<close>

text \<open>
  What the run reads from outside: the two credentials of the process environment, the
  command line, the clock (the value of the k-th reading, in milliseconds since the
  epoch; an ISO time stamp is modelled by the instant it denotes), the calendar function
  behind \<^verbatim>\<open>setMonth\<close>, and the network: the outcome of the k-th HTTP request of the run,
  for each of the two endpoints, where \<open>Inl\<close> is a failed \<^verbatim>\<open>fetch\<close>.
\<close>

record calls_filter =
  fromDateTime :: "int option"
  toDateTime :: "int option"

datatype request_body =
    CallsBody "calls_filter option" "string option" bool
  | TranscriptBody "string list"

record http_request =
  endpoint :: string
  http_method :: string
  authorization :: "string \<times> string"
  body :: request_body

record 'a http_response =
  status :: nat
  retry_after_header :: "string option"
  body_text :: string
  body_json :: "'a option"

record GongCallsListResponse =
  records_cursor :: "string option"
  calls :: "call_data list"

record GongTranscriptResponse =
  callTranscripts :: "GongCallTranscript list"

record env =
  GONG_ACCESS_KEY :: "string option"
  GONG_ACCESS_KEY_SECRET :: "string option"
  argv :: "string list"
  clock :: "nat \<Rightarrow> int"
  minus_months :: "int \<Rightarrow> int \<Rightarrow> int"
  net_calls :: "nat \<Rightarrow> http_request \<Rightarrow> unit + GongCallsListResponse http_response"
  net_transcripts :: "nat \<Rightarrow> http_request \<Rightarrow> unit + GongTranscriptResponse http_response"

text \<open>The rows of lib/db/schema.sql.\<close>

record recording_row =
  rec_id :: string
  rec_title :: string
  rec_description :: "string option"
  rec_video_url :: string
  rec_duration :: int
  rec_space :: string
  rec_source :: string
  rec_media_type :: string
  rec_media_url_expires_at :: "int option"
  rec_created_at :: string
  rec_synced_at :: int

record segment_row =
  sg_id :: string
  sg_recording_id :: string
  sg_start_time :: rat
  sg_end_time :: rat
  sg_speaker :: string
  sg_text :: string

record speaker_row =
  sp_id :: string
  sp_recording_id :: string
  sp_name :: string
  sp_color :: string

record video_file_row =
  vf_id :: string
  vf_recording_id :: string
  vf_view_type :: string
  vf_video_url :: string

record chat_message_row =
  cm_id :: string
  cm_recording_id :: string
  cm_timestamp :: rat
  cm_sender :: string
  cm_message :: string

record summary_row =
  sm_id :: string
  sm_recording_id :: string
  sm_content :: string

record database =
  recordings :: "recording_row list"
  segments :: "segment_row list"
  speakers :: "speaker_row list"
  video_files :: "video_file_row list"
  chat_messages :: "chat_message_row list"
  summaries :: "summary_row list"

text \<open>
  The state the run changes: the database as committed, the journal of every state
  committed since the start (a statement outside a transaction commits by itself, a
  transaction commits once; a run that stops leaves the last state of the journal),
  the HTTP requests sent, the number of clock readings, and the arguments of the
  \<^verbatim>\<open>sleep\<close> calls, in milliseconds.
\<close>

record world =
  tables :: database
  journal :: "database list"
  sent :: "http_request list"
  clock_reads :: nat
  sleeps :: "jsnum list"

datatype gong_error =
    MissingCredentials
  | GongRateLimitError jsnum
  | GongApiError nat string
  | FetchFailed
  | JsonSyntaxError
  | RangeError
  | SqliteConstraint string

definition read_clock :: "env \<Rightarrow> world \<Rightarrow> world \<times> int" where
  "read_clock e w = (w\<lparr>clock_reads := Suc (clock_reads w)\<rparr>, clock e (clock_reads w))"

definition commit :: "database \<Rightarrow> world \<Rightarrow> world" where
  "commit t w = w\<lparr>tables := t, journal := journal w @ [t]\<rparr>"

definition sleep :: "jsnum \<Rightarrow> world \<Rightarrow> world" where
  "sleep ms w = w\<lparr>sleeps := sleeps w @ [ms]\<rparr>"

section \<open>Provider client (lib/gong/auth.ts, lib/gong/calls.ts)\<close>

definition isGongConfigured :: "env \<Rightarrow> bool" where
  "isGongConfigured e = (truthy (GONG_ACCESS_KEY e) \<and> truthy (GONG_ACCESS_KEY_SECRET e))"

text \<open>The header is kept as the pair of credentials it encodes.\<close>

definition getGongAuthHeader :: "env \<Rightarrow> gong_error + string \<times> string" where
  "getGongAuthHeader e =
     (if \<not> truthy (GONG_ACCESS_KEY e) \<or> \<not> truthy (GONG_ACCESS_KEY_SECRET e)
      then Inl MissingCredentials
      else Inr (the (GONG_ACCESS_KEY e), the (GONG_ACCESS_KEY_SECRET e)))"

text \<open>\<^verbatim>\<open>response.ok\<close>\<close>

definition ok :: "'a http_response \<Rightarrow> bool" where
  "ok r = (200 \<le> status r \<and> status r \<le> 299)"

text \<open>
  \<^verbatim>\<open>gongFetch\<close>, for an endpoint whose network is \<open>net\<close>. The request is the next one of
  the run; it is sent unless the credentials are missing.
\<close>

definition gongFetch ::
  "env \<Rightarrow> (nat \<Rightarrow> http_request \<Rightarrow> unit + 'a http_response) \<Rightarrow> string \<Rightarrow> string \<Rightarrow> request_body
     \<Rightarrow> world \<Rightarrow> world \<times> (gong_error + 'a)"
where
  "gongFetch e net ep meth b w =
     (case getGongAuthHeader e of
        Inl err \<Rightarrow> (w, Inl err)
      | Inr authHeader \<Rightarrow>
          (let req = \<lparr>endpoint = ep, http_method = meth, authorization = authHeader, body = b\<rparr>;
               w' = w\<lparr>sent := sent w @ [req]\<rparr>
           in case net (length (sent w)) req of
                Inl _ \<Rightarrow> (w', Inl FetchFailed)
              | Inr response \<Rightarrow>
                  if status response = 429 then
                    (let retryAfter = retry_after_header response;
                         seconds = (if truthy retryAfter then parseInt10 (the retryAfter) else Num 60)
                     in (w', Inl (GongRateLimitError seconds)))
                  else if \<not> ok response then
                    (w', Inl (GongApiError (status response) (body_text response)))
                  else (case body_json response of
                          None \<Rightarrow> (w', Inl JsonSyntaxError)
                        | Some v \<Rightarrow> (w', Inr v))))"

record list_options =
  opt_fromDateTime :: "int option"
  opt_toDateTime :: "int option"
  opt_cursor :: "string option"
  opt_includeMedia :: bool

definition listCalls :: "env \<Rightarrow> list_options \<Rightarrow> world \<Rightarrow> world \<times> (gong_error + GongCallsListResponse)" where
  "listCalls e options w =
     (let filter_part =
            (if opt_fromDateTime options \<noteq> None \<or> opt_toDateTime options \<noteq> None
             then Some \<lparr>fromDateTime = opt_fromDateTime options, toDateTime = opt_toDateTime options\<rparr>
             else None);
          cursor_part = (if truthy (opt_cursor options) then opt_cursor options else None)
      in gongFetch e (net_calls e) ''/v2/calls/extensive'' ''POST''
           (CallsBody filter_part cursor_part (opt_includeMedia options)) w)"

text \<open>
  The \<^verbatim>\<open>do ... while (cursor)\<close> loop of \<^verbatim>\<open>listAllCalls\<close>. Nothing bounds the number of
  pages a provider may serve, so the loop is a partial function: \<open>None\<close> is a loop that
  never ends.
\<close>

partial_function (option) listAllCalls_loop ::
  "env \<Rightarrow> list_options \<Rightarrow> string option \<Rightarrow> call_data list \<Rightarrow> world
     \<Rightarrow> (world \<times> (gong_error + call_data list)) option"
where
  "listAllCalls_loop e options cursor allCalls w =
     (case listCalls e (options\<lparr>opt_cursor := cursor\<rparr>) w of
        (w', Inl err) \<Rightarrow> Some (w', Inl err)
      | (w', Inr response) \<Rightarrow>
          (if truthy (records_cursor response)
           then listAllCalls_loop e options (records_cursor response) (allCalls @ calls response) w'
           else Some (w', Inr (allCalls @ calls response))))"

definition listAllCalls ::
  "env \<Rightarrow> list_options \<Rightarrow> world \<Rightarrow> (world \<times> (gong_error + call_data list)) option" where
  "listAllCalls e options w = listAllCalls_loop e options None [] w"

definition getTranscripts :: "env \<Rightarrow> string list \<Rightarrow> world \<Rightarrow> world \<times> (gong_error + GongTranscriptResponse)" where
  "getTranscripts e callIds w =
     (if length callIds = 0 then (w, Inr \<lparr>callTranscripts = []\<rparr>)
      else gongFetch e (net_transcripts e) ''/v2/calls/transcript'' ''POST'' (TranscriptBody callIds) w)"

section \<open>Storage operations (scripts/sync-gong.ts)\<close>

definition MEDIA_URL_EXPIRY_HOURS :: int where
  "MEDIA_URL_EXPIRY_HOURS = 8"

text \<open>
  \<^verbatim>\<open>initDb\<close> opens the database, switches foreign keys on and runs the schema, whose
  statements all create a table or an index only if it does not exist: the tables of the
  model are always there, and no row changes.
\<close>

definition initDb :: "world \<Rightarrow> world" where
  "initDb w = w"

record recording_input =
  in_id :: string
  in_title :: string
  in_description :: "string option"
  in_videoUrl :: string
  in_duration :: int
  in_space :: string
  in_source :: string
  in_mediaType :: string
  in_mediaUrlExpiresAt :: "int option"
  in_createdAt :: string

text \<open>
  The rows of the five tables that reference a recording with \<^verbatim>\<open>ON DELETE CASCADE\<close>;
  with foreign keys on, replacing a row of \<^verbatim>\<open>recordings\<close> deletes the row it replaces
  and, with it, the rows that reference it.
\<close>

definition delete_children :: "string \<Rightarrow> database \<Rightarrow> database" where
  "delete_children rid t =
     t\<lparr>segments := filter (\<lambda>r. sg_recording_id r \<noteq> rid) (segments t),
       speakers := filter (\<lambda>r. sp_recording_id r \<noteq> rid) (speakers t),
       video_files := filter (\<lambda>r. vf_recording_id r \<noteq> rid) (video_files t),
       chat_messages := filter (\<lambda>r. cm_recording_id r \<noteq> rid) (chat_messages t),
       summaries := filter (\<lambda>r. sm_recording_id r \<noteq> rid) (summaries t)\<rparr>"

definition replace_recording :: "recording_row \<Rightarrow> database \<Rightarrow> database" where
  "replace_recording row t =
     (let t1 = (if rec_id row \<in> set (map rec_id (recordings t))
                then delete_children (rec_id row) t else t)
      in t1\<lparr>recordings := filter (\<lambda>r. rec_id r \<noteq> rec_id row) (recordings t1) @ [row]\<rparr>)"

text \<open>\<^verbatim>\<open>INSERT OR REPLACE INTO recordings\<close>, with \<^verbatim>\<open>synced_at\<close> read from the clock.\<close>

definition upsertRecording :: "env \<Rightarrow> recording_input \<Rightarrow> world \<Rightarrow> world" where
  "upsertRecording e recording w =
     (case read_clock e w of
        (w1, now) \<Rightarrow>
          commit
            (replace_recording
               \<lparr>rec_id = in_id recording,
                rec_title = in_title recording,
                rec_description = in_description recording,
                rec_video_url = in_videoUrl recording,
                rec_duration = in_duration recording,
                rec_space = in_space recording,
                rec_source = in_source recording,
                rec_media_type = in_mediaType recording,
                rec_media_url_expires_at = in_mediaUrlExpiresAt recording,
                rec_created_at = in_createdAt recording,
                rec_synced_at = now\<rparr>
               (tables w1))
            w1)"

text \<open>Four \<^verbatim>\<open>DELETE\<close> statements, each committed by itself.\<close>

definition deleteRecordingData :: "string \<Rightarrow> world \<Rightarrow> world" where
  "deleteRecordingData recordingId w =
     (let w1 = commit ((tables w)\<lparr>segments := filter (\<lambda>r. sg_recording_id r \<noteq> recordingId) (segments (tables w))\<rparr>) w;
          w2 = commit ((tables w1)\<lparr>speakers := filter (\<lambda>r. sp_recording_id r \<noteq> recordingId) (speakers (tables w1))\<rparr>) w1;
          w3 = commit ((tables w2)\<lparr>video_files := filter (\<lambda>r. vf_recording_id r \<noteq> recordingId) (video_files (tables w2))\<rparr>) w2;
          w4 = commit ((tables w3)\<lparr>chat_messages := filter (\<lambda>r. cm_recording_id r \<noteq> recordingId) (chat_messages (tables w3))\<rparr>) w3
      in w4)"

text \<open>
  One \<^verbatim>\<open>INSERT\<close> of the prepared statement: it fails on a primary key that the table
  holds already and on a recording that does not exist.
\<close>

definition insert_segment :: "segment_row \<Rightarrow> database \<Rightarrow> gong_error + database" where
  "insert_segment r t =
     (if sg_id r \<in> set (map sg_id (segments t)) then Inl (SqliteConstraint ''PRIMARYKEY'')
      else if sg_recording_id r \<notin> set (map rec_id (recordings t)) then Inl (SqliteConstraint ''FOREIGNKEY'')
      else Inr (t\<lparr>segments := segments t @ [r]\<rparr>))"

definition insert_speaker :: "speaker_row \<Rightarrow> database \<Rightarrow> gong_error + database" where
  "insert_speaker r t =
     (if sp_id r \<in> set (map sp_id (speakers t)) then Inl (SqliteConstraint ''PRIMARYKEY'')
      else if sp_recording_id r \<notin> set (map rec_id (recordings t)) then Inl (SqliteConstraint ''FOREIGNKEY'')
      else Inr (t\<lparr>speakers := speakers t @ [r]\<rparr>))"

text \<open>The loop inside a transaction: the statements run on the uncommitted state.\<close>

fun run_all :: "('r \<Rightarrow> database \<Rightarrow> gong_error + database) \<Rightarrow> 'r list \<Rightarrow> database \<Rightarrow> gong_error + database" where
  "run_all stmt [] t = Inr t"
| "run_all stmt (r # rs) t =
     (case stmt r t of Inl err \<Rightarrow> Inl err | Inr t' \<Rightarrow> run_all stmt rs t')"

text \<open>
  \<^verbatim>\<open>db.transaction(f)\<close>: the result of \<open>f\<close> is committed as a whole; when \<open>f\<close> throws, the
  transaction is rolled back, nothing is committed, and the error is thrown on.
\<close>

definition transaction :: "(database \<Rightarrow> gong_error + database) \<Rightarrow> world \<Rightarrow> world \<times> (gong_error + unit)" where
  "transaction f w =
     (case f (tables w) of
        Inl err \<Rightarrow> (w, Inl err)
      | Inr t' \<Rightarrow> (commit t' w, Inr ()))"

definition segment_row_of :: "string \<Rightarrow> TranscriptSegment \<Rightarrow> segment_row" where
  "segment_row_of recordingId seg =
     \<lparr>sg_id = recordingId @ ''-'' @ seg_id seg,
      sg_recording_id = recordingId,
      sg_start_time = startTime seg,
      sg_end_time = endTime seg,
      sg_speaker = speaker seg,
      sg_text = seg_text seg\<rparr>"

definition speaker_row_of :: "string \<Rightarrow> Speaker \<Rightarrow> speaker_row" where
  "speaker_row_of recordingId spk =
     \<lparr>sp_id = recordingId @ ''-'' @ spk_id spk,
      sp_recording_id = recordingId,
      sp_name = spk_name spk,
      sp_color = spk_color spk\<rparr>"

definition insertSegments :: "string \<Rightarrow> TranscriptSegment list \<Rightarrow> world \<Rightarrow> world \<times> (gong_error + unit)" where
  "insertSegments recordingId segs w =
     transaction (run_all insert_segment (map (segment_row_of recordingId) segs)) w"

definition insertSpeakers :: "string \<Rightarrow> Speaker list \<Rightarrow> world \<Rightarrow> world \<times> (gong_error + unit)" where
  "insertSpeakers recordingId spks w =
     transaction (run_all insert_speaker (map (speaker_row_of recordingId) spks)) w"

text \<open>
  \<^verbatim>\<open>isRecentlySynced\<close>: the clock is read only when the row exists.
\<close>

definition isRecentlySynced :: "env \<Rightarrow> string \<Rightarrow> world \<Rightarrow> world \<times> bool" where
  "isRecentlySynced e recordingId w =
     (case find (\<lambda>r. rec_id r = recordingId) (recordings (tables w)) of
        None \<Rightarrow> (w, False)
      | Some row \<Rightarrow>
          (case read_clock e w of
             (w1, now) \<Rightarrow> (w1, rec_synced_at row > now - 60 * 60 * 1000)))"

section \<open>The per-call step and the run (scripts/sync-gong.ts)\<close>

record call_result =
  synced :: bool
  skipped :: bool
  title :: string

definition media_lower :: "media_kind \<Rightarrow> string" where
  "media_lower k = (case k of Video \<Rightarrow> ''video'' | Audio \<Rightarrow> ''audio'')"

text \<open>
  The statements of the \<^verbatim>\<open>try\<close> block after the media URL is resolved. An error of an
  insert leaves the block at once; what was committed before stays committed.
\<close>

definition write_call ::
  "env \<Rightarrow> GongCall \<Rightarrow> string \<Rightarrow> string \<Rightarrow> int \<Rightarrow> TranscriptSegment list \<Rightarrow> Speaker list
     \<Rightarrow> world \<Rightarrow> world \<times> (gong_error + unit)"
where
  "write_call e call recordingId mediaUrl mediaUrlExpiresAt segs spks w =
     (let w1 = upsertRecording e
                 \<lparr>in_id = recordingId,
                  in_title = (if call_title call \<noteq> [] then call_title call else ''Untitled Call''),
                  in_description = call_purpose call,
                  in_videoUrl = mediaUrl,
                  in_duration = call_duration call,
                  in_space = ''Gong Calls'',
                  in_source = ''gong'',
                  in_mediaType = media_lower (call_media call),
                  in_mediaUrlExpiresAt = Some mediaUrlExpiresAt,
                  in_createdAt = call_started call\<rparr> w;
          w2 = deleteRecordingData recordingId w1
      in case (if length segs > 0 then insertSegments recordingId segs w2 else (w2, Inr ())) of
           (w3, Inl err) \<Rightarrow> (w3, Inl err)
         | (w3, Inr _) \<Rightarrow>
             (if length spks > 0 then insertSpeakers recordingId spks w3 else (w3, Inr ())))"

text \<open>
  The segments and speakers of a call: those of its transcript when the transcript map
  has one with at least one entry, none otherwise.
\<close>

definition transcript_data ::
  "GongParty list \<Rightarrow> GongCallTranscript option \<Rightarrow> TranscriptSegment list \<times> Speaker list" where
  "transcript_data parties_list tr =
     (case tr of
        None \<Rightarrow> ([], [])
      | Some t \<Rightarrow>
          if length (transcript t) > 0
          then (let segs = parseGongTranscript t (buildSpeakerMap parties_list)
                in (segs, extractSpeakers segs))
          else ([], []))"

text \<open>\<^verbatim>\<open>isVideo ? media?.videoUrl : media?.audioUrl\<close>\<close>

definition media_url :: "call_data \<Rightarrow> string option" where
  "media_url callData =
     (case media callData of
        None \<Rightarrow> None
      | Some m \<Rightarrow> if call_media (metaData callData) = Video then videoUrl m else audioUrl m)"

definition recording_id :: "call_data \<Rightarrow> string" where
  "recording_id callData = ''gong_'' @ call_id (metaData callData)"

definition processCall ::
  "env \<Rightarrow> call_data \<Rightarrow> (string \<rightharpoonup> GongCallTranscript) \<Rightarrow> bool \<Rightarrow> world \<Rightarrow> world \<times> call_result"
where
  "processCall e callData transcriptMap force w =
     (let call = metaData callData;
          parties_list = (case parties callData of Some ps \<Rightarrow> ps | None \<Rightarrow> []);
          recordingId = recording_id callData
      in case (if force then (w, False) else isRecentlySynced e recordingId w) of
           (w0, recent) \<Rightarrow>
             if \<not> force \<and> recent then (w0, \<lparr>synced = False, skipped = True, title = call_title call\<rparr>)
             else
               (let mediaUrl = media_url callData
                in if \<not> truthy mediaUrl
                   then (w0, \<lparr>synced = False, skipped = False, title = call_title call\<rparr>)
                   else
                     (case read_clock e w0 of
                        (w1, now) \<Rightarrow>
                          (let mediaUrlExpiresAt = now + MEDIA_URL_EXPIRY_HOURS * 60 * 60 * 1000;
                               (segs, spks) = transcript_data parties_list (transcriptMap (call_id call))
                           in case write_call e call recordingId (the mediaUrl) mediaUrlExpiresAt segs spks w1 of
                                (w2, Inl err) \<Rightarrow> (w2, \<lparr>synced = False, skipped = False, title = call_title call\<rparr>)
                              | (w2, Inr _) \<Rightarrow> (w2, \<lparr>synced = True, skipped = False, title = call_title call\<rparr>)))))"

definition TRANSCRIPT_BATCH_SIZE :: nat where
  "TRANSCRIPT_BATCH_SIZE = 50"

definition MAX_RETRIES_PER_BATCH :: nat where
  "MAX_RETRIES_PER_BATCH = 3"

fun set_transcripts ::
  "GongCallTranscript list \<Rightarrow> (string \<rightharpoonup> GongCallTranscript) \<Rightarrow> (string \<rightharpoonup> GongCallTranscript)" where
  "set_transcripts [] m = m"
| "set_transcripts (t # ts) m = set_transcripts ts (m(callId t \<mapsto> t))"

text \<open>
  The \<^verbatim>\<open>while (retryCount < MAX_RETRIES_PER_BATCH)\<close> loop of one batch. \<open>Inl\<close> is the
  error thrown out of the loop.
\<close>

function fetch_batch ::
  "env \<Rightarrow> string list \<Rightarrow> nat \<Rightarrow> (string \<rightharpoonup> GongCallTranscript) \<Rightarrow> world
     \<Rightarrow> world \<times> (gong_error + (string \<rightharpoonup> GongCallTranscript))"
where
  "fetch_batch e callIds retryCount transcriptMap w =
     (if retryCount < MAX_RETRIES_PER_BATCH then
        (case getTranscripts e callIds w of
           (w', Inr transcriptResponse) \<Rightarrow>
             (w', Inr (set_transcripts (callTranscripts transcriptResponse) transcriptMap))
         | (w', Inl (GongRateLimitError retryAfterSeconds)) \<Rightarrow>
             (if Suc retryCount \<ge> MAX_RETRIES_PER_BATCH
              then (w', Inl (GongRateLimitError retryAfterSeconds))
              else fetch_batch e callIds (Suc retryCount) transcriptMap
                     (sleep (times1000 retryAfterSeconds) w'))
         | (w', Inl _) \<Rightarrow> (w', Inr transcriptMap))
      else (w, Inr transcriptMap))"
  by pat_completeness auto
termination
  by (relation "measure (\<lambda>(e, callIds, retryCount, transcriptMap, w). MAX_RETRIES_PER_BATCH - retryCount)") auto

declare fetch_batch.simps [simp del]

text \<open>The \<^verbatim>\<open>for (let i = 0; i < calls.length; i += TRANSCRIPT_BATCH_SIZE)\<close> loop.\<close>

function fetch_transcripts ::
  "env \<Rightarrow> call_data list \<Rightarrow> nat \<Rightarrow> (string \<rightharpoonup> GongCallTranscript) \<Rightarrow> world
     \<Rightarrow> world \<times> (gong_error + (string \<rightharpoonup> GongCallTranscript))"
where
  "fetch_transcripts e cs i transcriptMap w =
     (if i < length cs then
        (let batch = take TRANSCRIPT_BATCH_SIZE (drop i cs);
             callIds = map (\<lambda>c. call_id (metaData c)) batch
         in case fetch_batch e callIds 0 transcriptMap w of
              (w', Inl err) \<Rightarrow> (w', Inl err)
            | (w', Inr transcriptMap') \<Rightarrow>
                fetch_transcripts e cs (i + TRANSCRIPT_BATCH_SIZE) transcriptMap' w')
      else (w, Inr transcriptMap))"
  by pat_completeness auto
termination
  by (relation "measure (\<lambda>(e, cs, i, transcriptMap, w). length cs - i)")
     (auto simp: TRANSCRIPT_BATCH_SIZE_def)

declare fetch_transcripts.simps [simp del]

text \<open>The \<^verbatim>\<open>for (const call of calls)\<close> loop; the results in the order of the calls.\<close>

fun process_calls ::
  "env \<Rightarrow> call_data list \<Rightarrow> (string \<rightharpoonup> GongCallTranscript) \<Rightarrow> bool \<Rightarrow> world
     \<Rightarrow> world \<times> call_result list"
where
  "process_calls e [] transcriptMap force w = (w, [])"
| "process_calls e (c # cs) transcriptMap force w =
     (case processCall e c transcriptMap force w of
        (w1, r) \<Rightarrow>
          (case process_calls e cs transcriptMap force w1 of
             (w2, rs) \<Rightarrow> (w2, r # rs)))"

text \<open>The three counts printed at the end of a run.\<close>

record summary =
  n_synced :: nat
  n_skipped :: nat
  n_failed :: nat

definition summarise :: "call_result list \<Rightarrow> summary" where
  "summarise results =
     \<lparr>n_synced = length (filter (\<lambda>r. synced r) results),
      n_skipped = length (filter (\<lambda>r. skipped r) results),
      n_failed = length (filter (\<lambda>r. \<not> synced r \<and> \<not> skipped r) results)\<rparr>"

text \<open>
  How a run that returns ends: without credentials, with the listing rate limited, with
  no call to sync, or with the summary. A run that throws ends with the error, which the
  last lines of the script turn into exit code 1.
\<close>

datatype outcome = NotConfigured | ListRateLimited jsnum | NoCalls | Complete summary

text \<open>\<^verbatim>\<open>monthsArg.split("=")[1]\<close> of an argument that starts with \<^verbatim>\<open>--months=\<close>\<close>

definition months_text :: "string \<Rightarrow> string" where
  "months_text arg = takeWhile (\<lambda>c. c \<noteq> CHR ''='') (drop 9 arg)"

text \<open>
  The run from the test \<^verbatim>\<open>calls.length === 0\<close> to its end, for the calls the listing
  returned: the transcripts are fetched batch by batch, the calls are processed one by
  one, and the results are counted.
\<close>

definition sync_calls :: "env \<Rightarrow> call_data list \<Rightarrow> bool \<Rightarrow> world \<Rightarrow> world \<times> (gong_error + outcome)" where
  "sync_calls e cs force w =
     (if length cs = 0 then (w, Inr NoCalls)
      else
        (case fetch_transcripts e cs 0 Map.empty w of
           (w1, Inl err) \<Rightarrow> (w1, Inl err)
         | (w1, Inr transcriptMap) \<Rightarrow>
             (case process_calls e cs transcriptMap force w1 of
                (w2, results) \<Rightarrow> (w2, Inr (Complete (summarise results))))))"

text \<open>
  The run up to the listing. The months argument is read before the database is opened;
  when it is not a number the start of the date range is an invalid date, whose
  \<^verbatim>\<open>toISOString\<close> throws before the first request. A rate-limit error of the listing
  ends the run with a message and a normal return, any other error is thrown on.
\<close>

definition sync :: "env \<Rightarrow> world \<Rightarrow> (world \<times> (gong_error + outcome)) option" where
  "sync e w =
     (if \<not> isGongConfigured e then Some (w, Inr NotConfigured)
      else
        (let force = (''--force'' \<in> set (argv e));
             monthsArg = find (\<lambda>arg. take 9 arg = ''--months='') (argv e);
             months = (case monthsArg of Some arg \<Rightarrow> parseInt10 (months_text arg) | None \<Rightarrow> Num 3);
             w0 = initDb w
         in case read_clock e w0 of
              (w1, toDate) \<Rightarrow>
                (case read_clock e w1 of
                   (w2, fromNow) \<Rightarrow>
                     (case months of
                        NaN \<Rightarrow> Some (w2, Inl RangeError)
                      | Num m \<Rightarrow>
                          (case listAllCalls e
                                  \<lparr>opt_fromDateTime = Some (minus_months e fromNow m),
                                   opt_toDateTime = Some toDate,
                                   opt_cursor = None,
                                   opt_includeMedia = True\<rparr> w2 of
                             None \<Rightarrow> None
                           | Some (w3, Inl (GongRateLimitError s)) \<Rightarrow> Some (w3, Inr (ListRateLimited s))
                           | Some (w3, Inl err) \<Rightarrow> Some (w3, Inl err)
                           | Some (w3, Inr cs) \<Rightarrow> Some (sync_calls e cs force w3))))))"

section \<open>Vocabulary of the statements\<close>

text \<open>The fields of a segment that come from the provider's sentence and its entry.\<close>

definition seg_fields :: "TranscriptSegment \<Rightarrow> rat \<times> rat \<times> string \<times> string" where
  "seg_fields s = (startTime s, endTime s, speaker s, seg_text s)"

text \<open>What one entry of the provider's transcript contributes, sentence by sentence.\<close>

definition entry_segments :: "(string \<rightharpoonup> string) \<Rightarrow> GongTranscriptEntry \<Rightarrow> (rat \<times> rat \<times> string \<times> string) list" where
  "entry_segments m e = map (\<lambda>s. (sentence_start s / 1000, sentence_end s / 1000,
      (case m (entry_speakerId e) of Some n \<Rightarrow> n | None \<Rightarrow> ''Speaker''), sentence_text s)) (entry_sentences e)"

text \<open>The first occurrences of a list, and the position of the first occurrence of a value.\<close>

fun firsts :: "'a list \<Rightarrow> 'a list" where
  "firsts [] = []"
| "firsts (x # xs) = x # filter (\<lambda>y. y \<noteq> x) (firsts xs)"

definition first_index :: "'a list \<Rightarrow> 'a \<Rightarrow> nat" where
  "first_index xs x = length (takeWhile (\<lambda>y. y \<noteq> x) xs)"

text \<open>
  A provider's finite sequence of pages: every page but the last carries a cursor that is
  neither absent nor empty, the last one does not.
\<close>

fun cursor_chain :: "GongCallsListResponse list \<Rightarrow> bool" where
  "cursor_chain [] = False"
| "cursor_chain [p] = (\<not> truthy (records_cursor p))"
| "cursor_chain (p # q # ps) = (truthy (records_cursor p) \<and> cursor_chain (q # ps))"

text \<open>The request \<^verbatim>\<open>listCalls\<close> sends for the given options and cursor.\<close>

definition calls_request :: "string \<times> string \<Rightarrow> list_options \<Rightarrow> string option \<Rightarrow> http_request" where
  "calls_request h options cursor =
     \<lparr>endpoint = ''/v2/calls/extensive'', http_method = ''POST'', authorization = h,
      body = CallsBody
               (if opt_fromDateTime options \<noteq> None \<or> opt_toDateTime options \<noteq> None
                then Some \<lparr>fromDateTime = opt_fromDateTime options, toDateTime = opt_toDateTime options\<rparr>
                else None)
               cursor (opt_includeMedia options)\<rparr>"

text \<open>
  The provider answers the requests that the pagination sends with the pages \<open>ps\<close>:
  request number \<open>k\<close> of the run, which carries the cursor \<open>c\<close>, gets the first page,
  and request number \<open>k + i\<close>, which carries the cursor of page \<open>i - 1\<close>, gets page \<open>i\<close>,
  each as a successful response. Nothing is said about the answer to any other request,
  so a provider that answers by the cursor it is sent serves its pages, and so does one
  that replays them in order.
\<close>

definition serves ::
  "env \<Rightarrow> string \<times> string \<Rightarrow> list_options \<Rightarrow> nat \<Rightarrow> string option \<Rightarrow> GongCallsListResponse list \<Rightarrow> bool"
where
  "serves e h options k c ps =
     (\<forall>i < length ps.
        \<exists>r. net_calls e (k + i) (calls_request h options ((c # map records_cursor ps) ! i)) = Inr r
            \<and> ok r \<and> body_json r = Some (ps ! i))"

text \<open>
  The request \<^verbatim>\<open>getTranscripts\<close> sends for a batch, and the three ways the provider can
  answer request number \<open>k\<close>: with a rate-limit signal of \<open>d\<close> seconds, with a
  successful response, or with any other failure (no response, a status outside 200..299
  other than 429, or a body that is not JSON).
\<close>

definition transcript_request :: "string \<times> string \<Rightarrow> string list \<Rightarrow> http_request" where
  "transcript_request h callIds =
     \<lparr>endpoint = ''/v2/calls/transcript'', http_method = ''POST'', authorization = h,
      body = TranscriptBody callIds\<rparr>"

definition rate_limited :: "env \<Rightarrow> nat \<Rightarrow> http_request \<Rightarrow> jsnum \<Rightarrow> bool" where
  "rate_limited e k req d =
     (\<exists>r. net_transcripts e k req = Inr r \<and> status r = 429 \<and>
          d = (if truthy (retry_after_header r) then parseInt10 (the (retry_after_header r)) else Num 60))"

definition succeeds :: "env \<Rightarrow> nat \<Rightarrow> http_request \<Rightarrow> GongTranscriptResponse \<Rightarrow> bool" where
  "succeeds e k req resp = (\<exists>r. net_transcripts e k req = Inr r \<and> ok r \<and> body_json r = Some resp)"

definition fails_otherwise :: "env \<Rightarrow> nat \<Rightarrow> http_request \<Rightarrow> bool" where
  "fails_otherwise e k req =
     (net_transcripts e k req = Inl () \<or>
      (\<exists>r. net_transcripts e k req = Inr r \<and> status r \<noteq> 429 \<and> (\<not> ok r \<or> body_json r = None)))"

text \<open>The call ids of the batch that starts at index \<open>i\<close>.\<close>

definition chunk_ids :: "call_data list \<Rightarrow> nat \<Rightarrow> string list" where
  "chunk_ids cs i = map (\<lambda>c. call_id (metaData c)) (take TRANSCRIPT_BATCH_SIZE (drop i cs))"

text \<open>
  The row the upsert writes for a recording input at a clock reading, and the input the
  per-call step builds for a call.
\<close>

definition input_row :: "recording_input \<Rightarrow> int \<Rightarrow> recording_row" where
  "input_row inp now =
     \<lparr>rec_id = in_id inp, rec_title = in_title inp, rec_description = in_description inp,
      rec_video_url = in_videoUrl inp, rec_duration = in_duration inp, rec_space = in_space inp,
      rec_source = in_source inp, rec_media_type = in_mediaType inp,
      rec_media_url_expires_at = in_mediaUrlExpiresAt inp, rec_created_at = in_createdAt inp,
      rec_synced_at = now\<rparr>"

definition call_input :: "GongCall \<Rightarrow> string \<Rightarrow> string \<Rightarrow> int \<Rightarrow> recording_input" where
  "call_input call rid url expires =
     \<lparr>in_id = rid,
      in_title = (if call_title call \<noteq> [] then call_title call else ''Untitled Call''),
      in_description = call_purpose call,
      in_videoUrl = url,
      in_duration = call_duration call,
      in_space = ''Gong Calls'',
      in_source = ''gong'',
      in_mediaType = media_lower (call_media call),
      in_mediaUrlExpiresAt = Some expires,
      in_createdAt = call_started call\<rparr>"

text \<open>The five states that the upsert and the four deletes commit, from the state \<open>t\<close>.\<close>

definition cleared_states :: "recording_row \<Rightarrow> database \<Rightarrow> database list" where
  "cleared_states row t =
     (let rid = rec_id row;
          t1 = replace_recording row t;
          t2 = t1\<lparr>segments := filter (\<lambda>r. sg_recording_id r \<noteq> rid) (segments t1)\<rparr>;
          t3 = t2\<lparr>speakers := filter (\<lambda>r. sp_recording_id r \<noteq> rid) (speakers t2)\<rparr>;
          t4 = t3\<lparr>video_files := filter (\<lambda>r. vf_recording_id r \<noteq> rid) (video_files t3)\<rparr>;
          t5 = t4\<lparr>chat_messages := filter (\<lambda>r. cm_recording_id r \<noteq> rid) (chat_messages t4)\<rparr>
      in [t1, t2, t3, t4, t5])"

text \<open>The state after the states \<open>ts\<close> were committed one after the other.\<close>

definition after_commits :: "world \<Rightarrow> database list \<Rightarrow> world" where
  "after_commits w ts = w\<lparr>tables := last (tables w # ts), journal := journal w @ ts\<rparr>"

text \<open>
  The Segment and Speaker rows of a recording in a state of the database; the parties of
  a call; the rows the per-call step inserts for a call; and the states a step commits,
  in order, which are the states a run that stops during the step can leave.
\<close>

definition segments_of :: "string \<Rightarrow> database \<Rightarrow> segment_row list" where
  "segments_of rid t = filter (\<lambda>r. sg_recording_id r = rid) (segments t)"

definition speakers_of :: "string \<Rightarrow> database \<Rightarrow> speaker_row list" where
  "speakers_of rid t = filter (\<lambda>r. sp_recording_id r = rid) (speakers t)"

definition call_parties :: "call_data \<Rightarrow> GongParty list" where
  "call_parties c = (case parties c of Some ps \<Rightarrow> ps | None \<Rightarrow> [])"

definition new_segment_rows :: "call_data \<Rightarrow> (string \<rightharpoonup> GongCallTranscript) \<Rightarrow> segment_row list" where
  "new_segment_rows c tm =
     map (segment_row_of (recording_id c)) (fst (transcript_data (call_parties c) (tm (call_id (metaData c)))))"

definition new_speaker_rows :: "call_data \<Rightarrow> (string \<rightharpoonup> GongCallTranscript) \<Rightarrow> speaker_row list" where
  "new_speaker_rows c tm =
     map (speaker_row_of (recording_id c)) (snd (transcript_data (call_parties c) (tm (call_id (metaData c)))))"

definition new_commits :: "world \<Rightarrow> world \<Rightarrow> database list" where
  "new_commits w w' = drop (length (journal w)) (journal w')"

text \<open>The row of a recording exists and was synced at the instant \<open>T\<close> or later.\<close>

definition synced_since :: "int \<Rightarrow> string \<Rightarrow> database \<Rightarrow> bool" where
  "synced_since T rid t =
     (case find (\<lambda>r. rec_id r = rid) (recordings t) of
        None \<Rightarrow> False
      | Some row \<Rightarrow> T \<le> rec_synced_at row)"

section \<open>Example data\<close>

text \<open>
  A configured environment whose network is down, an empty store, and a response with a
  given status, \<^verbatim>\<open>Retry-After\<close> header, text and parsed body. The concrete runs below are
  variations of them.
\<close>

definition env0 :: env where
  "env0 = \<lparr>GONG_ACCESS_KEY = Some ''key'', GONG_ACCESS_KEY_SECRET = Some ''secret'', argv = [],
     clock = (\<lambda>k. 1000 * int k), minus_months = (\<lambda>t m. t - m * 2592000000),
     net_calls = (\<lambda>k req. Inl ()), net_transcripts = (\<lambda>k req. Inl ())\<rparr>"

definition world0 :: world where
  "world0 = \<lparr>tables = \<lparr>recordings = [], segments = [], speakers = [], video_files = [], chat_messages = [], summaries = []\<rparr>,
     journal = [], sent = [], clock_reads = 0, sleeps = []\<rparr>"

definition reply :: "nat \<Rightarrow> string option \<Rightarrow> string \<Rightarrow> 'a option \<Rightarrow> 'a http_response" where
  "reply st ra txt js = \<lparr>status = st, retry_after_header = ra, body_text = txt, body_json = js\<rparr>"


definition call0 :: "string \<Rightarrow> call_data" where
  "call0 i =
     \<lparr>metaData = \<lparr>call_id = i, call_title = ''Call '' @ i, call_started = ''2026-01-01T00:00:00Z'',
                  call_duration = 60, call_media = Video, call_purpose = None\<rparr>,
      parties = None,
      media = Some \<lparr>audioUrl = None, videoUrl = Some (''https://media/'' @ i)\<rparr>\<rparr>"

definition pages3 :: "GongCallsListResponse list" where
  "pages3 =
     [\<lparr>records_cursor = Some ''A'', calls = [call0 ''1'', call0 ''2'']\<rparr>,
      \<lparr>records_cursor = Some ''B'', calls = [call0 ''3'']\<rparr>,
      \<lparr>records_cursor = Some [], calls = [call0 ''4'']\<rparr>]"

text \<open>
  Two providers of the pages \<open>ps\<close>: one answers a request by the cursor it carries, with
  the first page when there is none and with the page after the one that gave the cursor
  otherwise; the other replays the pages in the order of the requests.
\<close>

definition by_cursor ::
  "GongCallsListResponse list \<Rightarrow> nat \<Rightarrow> http_request \<Rightarrow> unit + GongCallsListResponse http_response" where
  "by_cursor ps k req =
     (case body req of
        TranscriptBody ids \<Rightarrow> Inl ()
      | CallsBody f None m \<Rightarrow> (case ps of [] \<Rightarrow> Inl () | p # rest \<Rightarrow> Inr (reply 200 None [] (Some p)))
      | CallsBody f (Some c) m \<Rightarrow>
          (case dropWhile (\<lambda>p. records_cursor p \<noteq> Some c) ps of
             p # q # rest \<Rightarrow> Inr (reply 200 None [] (Some q))
           | _ \<Rightarrow> Inl ()))"

definition serve_pages :: "GongCallsListResponse list \<Rightarrow> nat \<Rightarrow> http_request \<Rightarrow> unit + GongCallsListResponse http_response" where
  "serve_pages ps k req = (if k < length ps then Inr (reply 200 None [] (Some (ps ! k))) else Inl ())"

definition no_options :: list_options where
  "no_options = \<lparr>opt_fromDateTime = None, opt_toDateTime = None, opt_cursor = None, opt_includeMedia = True\<rparr>"

definition transcript0 :: "string \<Rightarrow> GongCallTranscript" where
  "transcript0 i =
     \<lparr>callId = i,
      transcript =
        [\<lparr>entry_speakerId = ''s1'',
          entry_sentences = [\<lparr>sentence_start = 2000, sentence_end = 3000, sentence_text = ''second''\<rparr>,
                             \<lparr>sentence_start = 0, sentence_end = 1500, sentence_text = ''first''\<rparr>]\<rparr>]\<rparr>"

definition throttled ::
  "nat \<Rightarrow> nat \<Rightarrow> GongTranscriptResponse \<Rightarrow> nat \<Rightarrow> http_request \<Rightarrow> unit + GongTranscriptResponse http_response" where
  "throttled k0 n resp k req =
     (if k < k0 + n
      then Inr (reply 429 (Some (if k = k0 then ''5'' else ''7'')) ''Too Many Requests'' None)
      else Inr (reply 200 None [] (Some resp)))"

text \<open>A provider that signals a rate limit \<open>n\<close> times from request \<open>k0\<close> on and is down afterwards.\<close>

definition throttled_then_down ::
  "nat \<Rightarrow> nat \<Rightarrow> nat \<Rightarrow> http_request \<Rightarrow> unit + GongTranscriptResponse http_response" where
  "throttled_then_down k0 n k req =
     (if k < k0 + n
      then Inr (reply 429 (Some (if k = k0 then ''5'' else ''7'')) ''Too Many Requests'' None)
      else Inr (reply 500 None ''Internal Server Error'' None))"

definition one_page :: "GongCallsListResponse list" where
  "one_page = [\<lparr>records_cursor = None, calls = [call0 ''1'', call0 ''2'']\<rparr>]"

text \<open>A video call for which the provider gives an audio URL only.\<close>

definition audio_only :: "string \<Rightarrow> call_data" where
  "audio_only i = (call0 i)\<lparr>media := Some \<lparr>audioUrl = Some (''https://media/'' @ i @ ''.mp3''), videoUrl = None\<rparr>\<rparr>"

text \<open>A run over one page of calls, with a provider that answers every transcript request.\<close>

definition env_of :: "call_data list \<Rightarrow> GongCallTranscript list \<Rightarrow> env" where
  "env_of cs ts =
     env0\<lparr>net_calls := serve_pages [\<lparr>records_cursor = None, calls = cs\<rparr>],
          net_transcripts := throttled 0 0 \<lparr>callTranscripts = ts\<rparr>\<rparr>"

text \<open>
  A store that holds a recording of the provider with one row in each dependent table,
  next to a recording of the other provider; and a call with one party.
\<close>

definition stored :: database where
  "stored =
     \<lparr>recordings =
        [\<lparr>rec_id = ''gong_1'', rec_title = ''Call 1'', rec_description = None,
          rec_video_url = ''https://media/old'', rec_duration = 60, rec_space = ''Gong Calls'',
          rec_source = ''gong'', rec_media_type = ''video'', rec_media_url_expires_at = Some 28800000,
          rec_created_at = ''2026-01-01T00:00:00Z'', rec_synced_at = 0\<rparr>,
         \<lparr>rec_id = ''zoom_7'', rec_title = ''Standup'', rec_description = None,
          rec_video_url = ''https://zoom/7'', rec_duration = 900, rec_space = ''Zoom Meetings'',
          rec_source = ''zoom'', rec_media_type = ''video'', rec_media_url_expires_at = None,
          rec_created_at = ''2026-01-02T00:00:00Z'', rec_synced_at = 0\<rparr>],
      segments =
        [\<lparr>sg_id = ''gong_1-seg-1'', sg_recording_id = ''gong_1'', sg_start_time = 0, sg_end_time = 1,
          sg_speaker = ''Ann'', sg_text = ''hello''\<rparr>,
         \<lparr>sg_id = ''zoom_7-seg-1'', sg_recording_id = ''zoom_7'', sg_start_time = 0, sg_end_time = 2,
          sg_speaker = ''Bob'', sg_text = ''hi''\<rparr>],
      speakers =
        [\<lparr>sp_id = ''gong_1-ann'', sp_recording_id = ''gong_1'', sp_name = ''Ann'', sp_color = ''#6366f1''\<rparr>,
         \<lparr>sp_id = ''zoom_7-bob'', sp_recording_id = ''zoom_7'', sp_name = ''Bob'', sp_color = ''#6366f1''\<rparr>],
      video_files =
        [\<lparr>vf_id = ''gong_1-v'', vf_recording_id = ''gong_1'', vf_view_type = ''speaker'', vf_video_url = ''https://media/old''\<rparr>],
      chat_messages =
        [\<lparr>cm_id = ''gong_1-m'', cm_recording_id = ''gong_1'', cm_timestamp = 3, cm_sender = ''Ann'', cm_message = ''hi''\<rparr>],
      summaries = []\<rparr>"

definition with_party :: "call_data \<Rightarrow> call_data" where
  "with_party c =
     c\<lparr>parties := Some [\<lparr>party_id = ''p1'', party_emailAddress = None, party_name = Some ''Ann'',
                          party_speakerId = Some ''s1''\<rparr>]\<rparr>"

text \<open>An environment whose clock stands at a given instant.\<close>

definition later :: "env \<Rightarrow> int \<Rightarrow> env" where
  "later e t = e\<lparr>clock := (\<lambda>k. t)\<rparr>"

text \<open>
  An environment whose clock stands at \<open>t\<close> for its first \<open>n\<close> readings and at \<open>t'\<close> from then
  on; and the state in which a new process finds the database that an earlier run left.
\<close>

definition delayed :: "env \<Rightarrow> nat \<Rightarrow> int \<Rightarrow> int \<Rightarrow> env" where
  "delayed e n t t' = e\<lparr>clock := (\<lambda>k. if k < n then t else t')\<rparr>"

definition restart :: "world \<Rightarrow> world" where
  "restart w = world0\<lparr>tables := tables w, journal := journal w\<rparr>"

section \<open>The transcript transformer\<close>

subsection \<open>Flattening\<close>

lemma push_sentences_fields:
  "map seg_fields (fst (push_sentences nm ss st)) =
     map seg_fields (fst st) @ map (\<lambda>s. (sentence_start s / 1000, sentence_end s / 1000, nm, sentence_text s)) ss"
  by (induction ss arbitrary: st) (auto simp: seg_fields_def)

lemma push_sentences_snd: "snd (push_sentences nm ss st) = snd st + length ss"
  by (induction ss arbitrary: st) auto

lemma push_sentences_ids:
  "map seg_id (fst (push_sentences nm ss st)) =
     map seg_id (fst st) @ map (\<lambda>i. ''seg-'' @ string_of_nat (Suc i)) [snd st ..< snd st + length ss]"
proof (induction ss arbitrary: st)
  case Nil
  then show ?case by simp
next
  case (Cons s ss)
  obtain segs n where st: "st = (segs, n)" by (cases st)
  have "[n ..< n + length (s # ss)] = n # [Suc n ..< Suc n + length ss]"
    using upt_conv_Cons[of n "n + length (s # ss)"] by simp
  then show ?case by (simp add: st Cons.IH)
qed

lemma push_entries_snd: "snd (push_entries m es st) = snd st + length (concat (map entry_sentences es))"
  by (induction es arbitrary: st) (simp_all add: push_sentences_snd Let_def)

lemma push_entries_ids:
  "map seg_id (fst (push_entries m es st)) =
     map seg_id (fst st) @ map (\<lambda>i. ''seg-'' @ string_of_nat (Suc i))
        [snd st ..< snd st + length (concat (map entry_sentences es))]"
proof (induction es arbitrary: st)
  case Nil
  then show ?case by simp
next
  case (Cons e es)
  let ?k = "length (entry_sentences e)" and ?r = "length (concat (map entry_sentences es))"
  have "[snd st ..< snd st + (?k + ?r)] = [snd st ..< snd st + ?k] @ [snd st + ?k ..< snd st + ?k + ?r]"
    using upt_add_eq_append[of "snd st" "snd st + ?k" ?r] by (simp add: add.assoc)
  then show ?case
    by (simp add: Cons.IH push_sentences_ids push_sentences_snd Let_def)
qed

lemma push_entries_fields:
  "map seg_fields (fst (push_entries m es st)) = map seg_fields (fst st) @ concat (map (entry_segments m) es)"
  by (induction es arbitrary: st) (simp_all add: push_sentences_fields entry_segments_def Let_def)


text \<open>
  Claim C5. For every transcript and speaker map, the output of \<^verbatim>\<open>parseGongTranscript\<close> is
  sorted by \<open>startTime\<close> ascending; for every start time the segments that carry it stand
  in the output in the order of the entry-by-sentence traversal (the sort is stable) and
  the output is a permutation of the traversal; the traversal holds, sentence by
  sentence, the provider's millisecond stamps divided by 1000, the speaker name the map
  gives for the entry's speaker id or \<open>''Speaker''\<close> when the map has none, and the
  sentence's text; its ids are \<open>seg-1\<close>, \<open>seg-2\<close>, ... in that order.
\<close>

theorem parseGongTranscript_sorted_stable:
  "sorted (map startTime (parseGongTranscript t m))
  \<and> (\<forall>k. filter (\<lambda>s. startTime s = k) (parseGongTranscript t m) = filter (\<lambda>s. startTime s = k) (flattened t m))
  \<and> mset (parseGongTranscript t m) = mset (flattened t m)
  \<and> map seg_fields (flattened t m) = concat (map (entry_segments m) (transcript t))
  \<and> map seg_id (flattened t m) = map (\<lambda>i. ''seg-'' @ string_of_nat (Suc i)) [0 ..< length (flattened t m)]"
proof -
  have len: "length (flattened t m) = length (concat (map entry_sentences (transcript t)))"
    using push_entries_ids[of m "transcript t" "([], 0)", THEN arg_cong, of length]
    by (simp add: flattened_def)
  show ?thesis
    unfolding parseGongTranscript_def
    by (simp add: sort_key_stable len)
      (simp add: flattened_def push_entries_fields push_entries_ids)
qed
subsection \<open>Speakers\<close>

lemma set_add_all_firsts:
  "set_add_all seen xs = seen @ filter (\<lambda>y. y \<notin> set seen) (firsts xs)"
proof (induction xs arbitrary: seen)
  case Nil
  then show ?case by simp
next
  case (Cons x xs)
  show ?case
  proof (cases "x \<in> set seen")
    case True
    then have "filter (\<lambda>y. y \<noteq> x \<and> y \<notin> set seen) (firsts xs) = filter (\<lambda>y. y \<notin> set seen) (firsts xs)"
      by (intro filter_cong) auto
    with True show ?thesis by (simp add: Cons.IH)
  next
    case False
    from False show ?thesis by (simp add: Cons.IH conj_commute)
  qed
qed

lemma unique_in_order_firsts: "unique_in_order xs = firsts xs"
  by (simp add: unique_in_order_def set_add_all_firsts)

lemma set_firsts: "set (firsts xs) = set xs"
  by (induction xs) auto

lemma distinct_firsts: "distinct (firsts xs)"
  by (induction xs) auto

lemma first_index_Cons: "first_index (x # xs) a = (if a = x then 0 else Suc (first_index xs a))"
  by (auto simp: first_index_def)

lemma firsts_order: "sorted_wrt (\<lambda>a b. first_index xs a < first_index xs b) (firsts xs)"
proof (induction xs)
  case Nil
  then show ?case by simp
next
  case (Cons x xs)
  have "sorted_wrt (\<lambda>a b. first_index xs a < first_index xs b) (filter (\<lambda>y. y \<noteq> x) (firsts xs))"
    using Cons.IH by (rule sorted_wrt_filter)
  then have "sorted_wrt (\<lambda>a b. first_index (x # xs) a < first_index (x # xs) b) (filter (\<lambda>y. y \<noteq> x) (firsts xs))"
    by (rule sorted_wrt_mono_rel[rotated]) (auto simp: first_index_Cons)
  then show ?case by (auto simp: first_index_Cons)
qed

lemma map_speakers_names: "map spk_name (map_speakers i names) = names"
  by (induction names arbitrary: i) auto

lemma length_map_speakers: "length (map_speakers i names) = length names"
  by (induction names arbitrary: i) auto

lemma map_speakers_color:
  "k < length names \<Longrightarrow> spk_color (map_speakers i names ! k) = SPEAKER_COLORS ! ((i + k) mod length SPEAKER_COLORS)"
proof (induction names arbitrary: i k)
  case Nil
  then show ?case by simp
next
  case (Cons n names)
  then show ?case by (cases k) auto
qed

text \<open>
  Claim C8. For every list of segments, \<^verbatim>\<open>extractSpeakers\<close> returns each speaker name of
  the segments once, in the order in which the names are first seen; the speaker at
  position \<open>i\<close> (from 0) has the colour at index \<open>i mod 10\<close> of the palette of ten
  colours, so an eleventh speaker has the colour at index 0; and the result depends on
  the ordered speaker names of the segments only.
\<close>

theorem extractSpeakers_first_seen_colors:
  "distinct (map spk_name (extractSpeakers segs))
   \<and> set (map spk_name (extractSpeakers segs)) = set (map speaker segs)
   \<and> sorted_wrt (\<lambda>a b. first_index (map speaker segs) a < first_index (map speaker segs) b)
        (map spk_name (extractSpeakers segs))
   \<and> (\<forall>i < length (extractSpeakers segs).
         spk_color (extractSpeakers segs ! i) = SPEAKER_COLORS ! (i mod length SPEAKER_COLORS))
   \<and> length SPEAKER_COLORS = 10
   \<and> (10 < length (extractSpeakers segs) \<longrightarrow>
         spk_color (extractSpeakers segs ! 10) = SPEAKER_COLORS ! 0)
   \<and> (map speaker segs = map speaker segs' \<longrightarrow> extractSpeakers segs = extractSpeakers segs')"
proof -
  have names: "map spk_name (extractSpeakers segs) = firsts (map speaker segs)"
    by (simp add: extractSpeakers_def map_speakers_names unique_in_order_firsts)
  have len: "length SPEAKER_COLORS = 10" by (simp add: SPEAKER_COLORS_def)
  have col: "spk_color (extractSpeakers segs ! i) = SPEAKER_COLORS ! (i mod length SPEAKER_COLORS)"
    if "i < length (extractSpeakers segs)" for i
    using that map_speakers_color[of i "unique_in_order (map speaker segs)" 0]
    by (simp add: extractSpeakers_def length_map_speakers)
  have c10: "spk_color (extractSpeakers segs ! 10) = SPEAKER_COLORS ! 0" if "10 < length (extractSpeakers segs)"
    using col[OF that] by (simp add: len)
  show ?thesis
    using col c10 len
    by (simp add: names distinct_firsts set_firsts firsts_order del: set_map) (simp add: extractSpeakers_def)
qed

theorem extractSpeakers_first_seen_colors_witness:
  "spk_color (extractSpeakers (map (\<lambda>n. \<lparr>seg_id = [], startTime = 0, endTime = 0, speaker = n, seg_text = []\<rparr>)
       [''a'', ''b'', ''a'', ''c'', ''d'', ''e'', ''f'', ''g'', ''h'', ''i'', ''b'', ''j'', ''k'']) ! 10) = ''#6366f1''
   \<and> map spk_name (extractSpeakers (map (\<lambda>n. \<lparr>seg_id = [], startTime = 0, endTime = 0, speaker = n, seg_text = []\<rparr>)
       [''a'', ''b'', ''a'', ''c'', ''d'', ''e'', ''f'', ''g'', ''h'', ''i'', ''b'', ''j'', ''k'']))
       = [''a'', ''b'', ''c'', ''d'', ''e'', ''f'', ''g'', ''h'', ''i'', ''j'', ''k'']"
  using extractSpeakers_first_seen_colors[of "map (\<lambda>n. \<lparr>seg_id = [], startTime = 0, endTime = 0, speaker = n, seg_text = []\<rparr>)
       [''a'', ''b'', ''a'', ''c'', ''d'', ''e'', ''f'', ''g'', ''h'', ''i'', ''b'', ''j'', ''k'']"]
  by (simp add: extractSpeakers_def unique_in_order_def SPEAKER_COLORS_def)


section \<open>The provider client\<close>

subsection \<open>Reading back a printed number\<close>










subsection \<open>Responses and errors\<close>













subsection \<open>Pagination\<close>

lemma listCalls_page:
  assumes "getGongAuthHeader e = Inr h"
    and "net_calls e (length (sent w)) req = Inr r" and "ok r" and "body_json r = Some p"
    and "req = calls_request h options (if truthy (opt_cursor options) then opt_cursor options else None)"
  shows "listCalls e options w = (w\<lparr>sent := sent w @ [req]\<rparr>, Inr p)"
  using assms by (auto simp: listCalls_def gongFetch_def calls_request_def ok_def Let_def)

lemma serves_Cons:
  assumes "serves e h options k c (p # ps)"
  shows "serves e h options (Suc k) (records_cursor p) ps"
  unfolding serves_def
proof (intro allI impI)
  fix i assume "i < length ps"
  then have "Suc i < length (p # ps)" by simp
  with assms obtain r where
    "net_calls e (k + Suc i) (calls_request h options ((c # map records_cursor (p # ps)) ! Suc i)) = Inr r"
    "ok r" "body_json r = Some ((p # ps) ! Suc i)"
    unfolding serves_def by blast
  then show "\<exists>r. net_calls e (Suc k + i) (calls_request h options ((records_cursor p # map records_cursor ps) ! i)) = Inr r
            \<and> ok r \<and> body_json r = Some (ps ! i)"
    by simp
qed

lemma serves_head:
  assumes "serves e h options k c (p # ps)"
  shows "\<exists>r. net_calls e k (calls_request h options c) = Inr r \<and> ok r \<and> body_json r = Some p"
proof -
  have "0 < length (p # ps)" by simp
  with assms obtain r where
    "net_calls e (k + 0) (calls_request h options ((c # map records_cursor (p # ps)) ! 0)) = Inr r"
    "ok r" "body_json r = Some ((p # ps) ! 0)"
    unfolding serves_def by blast
  then show ?thesis by simp
qed

lemma loop_pages:
  assumes "getGongAuthHeader e = Inr h"
  shows "cursor_chain ps \<Longrightarrow> serves e h options (length (sent w)) cursor ps \<Longrightarrow>
    (cursor = None \<or> truthy cursor) \<Longrightarrow>
    listAllCalls_loop e options cursor allCalls w =
      Some (w\<lparr>sent := sent w @ map (calls_request h options) (cursor # map records_cursor (butlast ps))\<rparr>,
            Inr (allCalls @ concat (map calls ps)))"
proof (induction ps arbitrary: cursor allCalls w rule: cursor_chain.induct)
  case 1
  then show ?case by simp
next
  case (2 p)
  obtain r where r: "net_calls e (length (sent w)) (calls_request h options cursor) = Inr r" "ok r" "body_json r = Some p"
    using serves_head[OF "2.prems"(2)] by blast
  have "listCalls e (options\<lparr>opt_cursor := cursor\<rparr>) w = (w\<lparr>sent := sent w @ [calls_request h options cursor]\<rparr>, Inr p)"
    using "2.prems"(3) by (intro listCalls_page[OF assms r]) (auto simp: calls_request_def)
  with "2.prems"(1) show ?case
    by (subst listAllCalls_loop.simps) simp
next
  case (3 p q ps)
  obtain r where r: "net_calls e (length (sent w)) (calls_request h options cursor) = Inr r" "ok r" "body_json r = Some p"
    using serves_head[OF "3.prems"(2)] by blast
  let ?w = "w\<lparr>sent := sent w @ [calls_request h options cursor]\<rparr>"
  have lc: "listCalls e (options\<lparr>opt_cursor := cursor\<rparr>) w = (?w, Inr p)"
    using "3.prems"(3) by (intro listCalls_page[OF assms r]) (auto simp: calls_request_def)
  have sv: "serves e h options (length (sent ?w)) (records_cursor p) (q # ps)"
    using serves_Cons[OF "3.prems"(2)] by simp
  have "listAllCalls_loop e options (records_cursor p) (allCalls @ calls p) ?w =
      Some (?w\<lparr>sent := sent ?w @ map (calls_request h options) (records_cursor p # map records_cursor (butlast (q # ps)))\<rparr>,
            Inr ((allCalls @ calls p) @ concat (map calls (q # ps))))"
    using "3.prems"(1) by (intro "3.IH" sv) auto
  with lc "3.prems"(1) show ?case
    by (subst listAllCalls_loop.simps) simp
qed

lemma listAllCalls_pages:
  assumes "getGongAuthHeader e = Inr h" and "cursor_chain ps"
    and "serves e h options (length (sent w)) None ps"
  shows "listAllCalls e options w =
      Some (w\<lparr>sent := sent w @ map (calls_request h options) (None # map records_cursor (butlast ps))\<rparr>,
            Inr (concat (map calls ps)))"
  using loop_pages[OF assms(1) assms(2) assms(3), of "[]"]
  by (simp add: listAllCalls_def)

lemma serves_serve_pages: "net_calls e = serve_pages ps \<Longrightarrow> serves e h options 0 c ps"
  by (simp add: serves_def serve_pages_def reply_def ok_def)

text \<open>
  Claim C4. Let a provider answer the first request, which carries no cursor, with a page,
  and each request that carries the cursor of a page with the next page, for a finite
  sequence of pages of which each but the last has a cursor and the last has an absent
  or empty one. Then \<^verbatim>\<open>listAllCalls\<close> returns: it sends one request per page, the first
  without a cursor and each later one with the cursor of the page before, stops after
  the page without a cursor, and returns the items of all pages concatenated in order.
  Only the answers to the requests that are sent are assumed.
\<close>

theorem listAllCalls_concatenates_pages:
  assumes "getGongAuthHeader e = Inr h" and "cursor_chain ps"
    and "serves e h options (length (sent w)) None ps"
  shows "listAllCalls e options w =
      Some (w\<lparr>sent := sent w @ map (calls_request h options) (None # map records_cursor (butlast ps))\<rparr>,
            Inr (concat (map calls ps)))"
  using loop_pages[OF assms(1) assms(2) assms(3), of "[]"]
  by (simp add: listAllCalls_def)


theorem listAllCalls_concatenates_pages_witness:
  "map_option snd (listAllCalls (env0\<lparr>net_calls := by_cursor pages3\<rparr>) no_options world0)
     = Some (Inr [call0 ''1'', call0 ''2'', call0 ''3'', call0 ''4''])
   \<and> map_option (map body \<circ> sent \<circ> fst) (listAllCalls (env0\<lparr>net_calls := by_cursor pages3\<rparr>) no_options world0)
     = Some [CallsBody None None True, CallsBody None (Some ''A'') True, CallsBody None (Some ''B'') True]
   \<and> map_option snd (listAllCalls (env0\<lparr>net_calls := serve_pages pages3\<rparr>) no_options world0)
     = Some (Inr [call0 ''1'', call0 ''2'', call0 ''3'', call0 ''4''])"
proof -
  have h: "getGongAuthHeader (env0\<lparr>net_calls := by_cursor pages3\<rparr>) = Inr (''key'', ''secret'')"
    and h': "getGongAuthHeader (env0\<lparr>net_calls := serve_pages pages3\<rparr>) = Inr (''key'', ''secret'')"
    by (simp_all add: getGongAuthHeader_def env0_def)
  have c: "cursor_chain pages3"
    by (simp add: pages3_def)
  have s: "serves (env0\<lparr>net_calls := by_cursor pages3\<rparr>) (''key'', ''secret'') no_options
             (length (sent world0)) None pages3"
    by (simp add: serves_def by_cursor_def calls_request_def world0_def reply_def ok_def pages3_def
          less_Suc_eq numeral_3_eq_3)
  have s': "serves (env0\<lparr>net_calls := serve_pages pages3\<rparr>) (''key'', ''secret'') no_options
             (length (sent world0)) None pages3"
    using serves_serve_pages[of "env0\<lparr>net_calls := serve_pages pages3\<rparr>" pages3] by (simp add: world0_def)
  show ?thesis
    using listAllCalls_concatenates_pages[OF h c s] listAllCalls_concatenates_pages[OF h' c s']
    by (simp add: pages3_def calls_request_def no_options_def world0_def)
qed


section \<open>The transcript batches\<close>

lemma getTranscripts_rate_limited:
  assumes "getGongAuthHeader e = Inr h" "callIds \<noteq> []" "rate_limited e (length (sent w)) (transcript_request h callIds) d"
  shows "getTranscripts e callIds w = (w\<lparr>sent := sent w @ [transcript_request h callIds]\<rparr>, Inl (GongRateLimitError d))"
  using assms by (auto simp: getTranscripts_def gongFetch_def transcript_request_def rate_limited_def Let_def)

lemma getTranscripts_succeeds:
  assumes "getGongAuthHeader e = Inr h" "callIds \<noteq> []" "succeeds e (length (sent w)) (transcript_request h callIds) resp"
  shows "getTranscripts e callIds w = (w\<lparr>sent := sent w @ [transcript_request h callIds]\<rparr>, Inr resp)"
  using assms by (auto simp: getTranscripts_def gongFetch_def transcript_request_def succeeds_def ok_def Let_def)

lemma getTranscripts_fails_otherwise:
  assumes "getGongAuthHeader e = Inr h" "callIds \<noteq> []" "fails_otherwise e (length (sent w)) (transcript_request h callIds)"
  shows "\<exists>err. getTranscripts e callIds w = (w\<lparr>sent := sent w @ [transcript_request h callIds]\<rparr>, Inl err)
           \<and> (\<forall>d. err \<noteq> GongRateLimitError d)"
  using assms by (auto simp: getTranscripts_def gongFetch_def transcript_request_def fails_otherwise_def Let_def split: option.splits)

lemma fetch_batch_success:
  assumes "retryCount < MAX_RETRIES_PER_BATCH" "getTranscripts e callIds w = (w', Inr resp)"
  shows "fetch_batch e callIds retryCount tm w = (w', Inr (set_transcripts (callTranscripts resp) tm))"
  using assms by (subst fetch_batch.simps) simp

lemma fetch_batch_other:
  assumes "retryCount < MAX_RETRIES_PER_BATCH" "getTranscripts e callIds w = (w', Inl err)" "\<forall>d. err \<noteq> GongRateLimitError d"
  shows "fetch_batch e callIds retryCount tm w = (w', Inr tm)"
  using assms by (subst fetch_batch.simps) (cases err; simp)

lemma fetch_batch_retry:
  assumes "Suc retryCount < MAX_RETRIES_PER_BATCH" "getTranscripts e callIds w = (w', Inl (GongRateLimitError d))"
  shows "fetch_batch e callIds retryCount tm w = fetch_batch e callIds (Suc retryCount) tm (sleep (times1000 d) w')"
  using assms by (subst fetch_batch.simps) simp

lemma fetch_batch_give_up:
  assumes "Suc retryCount = MAX_RETRIES_PER_BATCH" "getTranscripts e callIds w = (w', Inl (GongRateLimitError d))"
  shows "fetch_batch e callIds retryCount tm w = (w', Inl (GongRateLimitError d))"
  using assms by (subst fetch_batch.simps) simp


lemma getTranscripts_frame:
  assumes "getTranscripts e callIds w = (w', res)"
  shows "tables w' = tables w \<and> journal w' = journal w \<and> clock_reads w' = clock_reads w
         \<and> sleeps w' = sleeps w \<and> length (sent w') \<le> Suc (length (sent w))"
  using assms
  by (auto simp: getTranscripts_def gongFetch_def Let_def split: if_splits sum.splits option.splits)

lemma sleep_frame:
  "tables (sleep ms w) = tables w \<and> journal (sleep ms w) = journal w \<and> clock_reads (sleep ms w) = clock_reads w
   \<and> sent (sleep ms w) = sent w \<and> sleeps (sleep ms w) = sleeps w @ [ms]"
  by (simp add: sleep_def)

lemma fetch_batch_frame:
  "fetch_batch e callIds retryCount tm w = (w', res) \<Longrightarrow>
     tables w' = tables w \<and> journal w' = journal w \<and> clock_reads w' = clock_reads w
     \<and> length (sent w') \<le> length (sent w) + (MAX_RETRIES_PER_BATCH - retryCount)
     \<and> length (sleeps w') \<le> length (sleeps w) + (MAX_RETRIES_PER_BATCH - Suc retryCount)"
proof (induction e callIds retryCount tm w arbitrary: w' res rule: fetch_batch.induct)
  case (1 e callIds retryCount tm w)
  show ?case
  proof (cases "retryCount < MAX_RETRIES_PER_BATCH")
    case False
    with "1.prems" show ?thesis by (subst (asm) fetch_batch.simps) auto
  next
    case True
    obtain w1 r1 where g: "getTranscripts e callIds w = (w1, r1)" by (cases "getTranscripts e callIds w")
    note fr = getTranscripts_frame[OF g]
    show ?thesis
    proof (cases r1)
      case (Inr resp)
      with "1.prems" True g fr show ?thesis by (subst (asm) fetch_batch.simps) auto
    next
      case (Inl err)
      show ?thesis
      proof (cases "\<exists>d. err = GongRateLimitError d")
        case False
        then have "fetch_batch e callIds retryCount tm w = (w1, Inr tm)"
          using fetch_batch_other[OF True] g Inl by blast
        with "1.prems" True fr show ?thesis by auto
      next
        case True
        then obtain d where d: "err = GongRateLimitError d" by blast
        show ?thesis
        proof (cases "Suc retryCount < MAX_RETRIES_PER_BATCH")
          case False
          with \<open>retryCount < MAX_RETRIES_PER_BATCH\<close> have s: "Suc retryCount = MAX_RETRIES_PER_BATCH" by simp
          have "fetch_batch e callIds retryCount tm w = (w1, Inl (GongRateLimitError d))"
            using fetch_batch_give_up[OF s] g Inl d by simp
          with "1.prems" fr s[symmetric] show ?thesis by auto
        next
          case t: True
          have eq: "fetch_batch e callIds (Suc retryCount) tm (sleep (times1000 d) w1) = (w', res)"
            using fetch_batch_retry[OF t] g Inl d "1.prems" by auto
          have "\<not> MAX_RETRIES_PER_BATCH \<le> Suc retryCount" using t by simp
          from "1.IH"[OF \<open>retryCount < MAX_RETRIES_PER_BATCH\<close> g[symmetric] Inl d this eq]
          show ?thesis using fr t by (auto simp: sleep_frame)
        qed
      qed
    qed
  qed
qed


lemma max_retries_3: "MAX_RETRIES_PER_BATCH = 3"
  by (simp add: MAX_RETRIES_PER_BATCH_def)

lemma two_signals_then:
  assumes h: "getGongAuthHeader e = Inr h" and ids: "callIds \<noteq> []"
    and r1: "rate_limited e (length (sent w)) (transcript_request h callIds) d1"
    and r2: "rate_limited e (length (sent w) + 1) (transcript_request h callIds) d2"
  shows "fetch_batch e callIds 0 tm w =
           fetch_batch e callIds 2 tm
             (w\<lparr>sent := sent w @ [transcript_request h callIds, transcript_request h callIds],
                sleeps := sleeps w @ [times1000 d1, times1000 d2]\<rparr>)"
proof -
  let ?req = "transcript_request h callIds"
  let ?w1 = "w\<lparr>sent := sent w @ [?req]\<rparr>"
  let ?w1s = "sleep (times1000 d1) ?w1"
  let ?w2 = "?w1s\<lparr>sent := sent ?w1s @ [?req]\<rparr>"
  have g1: "getTranscripts e callIds w = (?w1, Inl (GongRateLimitError d1))"
    by (rule getTranscripts_rate_limited[OF h ids r1])
  have "rate_limited e (length (sent ?w1s)) ?req d2"
    using r2 by (simp add: sleep_def)
  then have g2: "getTranscripts e callIds ?w1s = (?w2, Inl (GongRateLimitError d2))"
    by (rule getTranscripts_rate_limited[OF h ids])
  have "fetch_batch e callIds 0 tm w = fetch_batch e callIds (Suc 0) tm ?w1s"
    by (rule fetch_batch_retry[OF _ g1]) (simp add: max_retries_3)
  also have "\<dots> = fetch_batch e callIds (Suc (Suc 0)) tm (sleep (times1000 d2) ?w2)"
    by (rule fetch_batch_retry[OF _ g2]) (simp add: max_retries_3)
  finally show ?thesis
    by (simp add: sleep_def numeral_2_eq_2)
qed

lemma retry_then_success:
  assumes h: "getGongAuthHeader e = Inr h" and ids: "callIds \<noteq> []"
    and r1: "rate_limited e (length (sent w)) (transcript_request h callIds) d1"
    and r2: "rate_limited e (length (sent w) + 1) (transcript_request h callIds) d2"
    and r3: "succeeds e (length (sent w) + 2) (transcript_request h callIds) resp"
  shows "fetch_batch e callIds 0 tm w =
           (w\<lparr>sent := sent w @ [transcript_request h callIds, transcript_request h callIds,
                                   transcript_request h callIds],
              sleeps := sleeps w @ [times1000 d1, times1000 d2]\<rparr>,
            Inr (set_transcripts (callTranscripts resp) tm))"
proof -
  let ?req = "transcript_request h callIds"
  let ?w2 = "w\<lparr>sent := sent w @ [?req, ?req], sleeps := sleeps w @ [times1000 d1, times1000 d2]\<rparr>"
  have "succeeds e (length (sent ?w2)) ?req resp" using r3 by simp
  from getTranscripts_succeeds[OF h ids this]
  have "fetch_batch e callIds 2 tm ?w2 =
          (?w2\<lparr>sent := sent ?w2 @ [?req]\<rparr>, Inr (set_transcripts (callTranscripts resp) tm))"
    by (intro fetch_batch_success) (simp_all add: max_retries_3)
  then show ?thesis
    by (simp add: two_signals_then[OF h ids r1 r2])
qed

lemma retry_cap_exceeded:
  assumes h: "getGongAuthHeader e = Inr h" and ids: "callIds \<noteq> []"
    and r1: "rate_limited e (length (sent w)) (transcript_request h callIds) d1"
    and r2: "rate_limited e (length (sent w) + 1) (transcript_request h callIds) d2"
    and r3: "rate_limited e (length (sent w) + 2) (transcript_request h callIds) d3"
  shows "fetch_batch e callIds 0 tm w =
           (w\<lparr>sent := sent w @ [transcript_request h callIds, transcript_request h callIds,
                                   transcript_request h callIds],
              sleeps := sleeps w @ [times1000 d1, times1000 d2]\<rparr>,
            Inl (GongRateLimitError d3))"
proof -
  let ?req = "transcript_request h callIds"
  let ?w2 = "w\<lparr>sent := sent w @ [?req, ?req], sleeps := sleeps w @ [times1000 d1, times1000 d2]\<rparr>"
  have "rate_limited e (length (sent ?w2)) ?req d3" using r3 by simp
  from getTranscripts_rate_limited[OF h ids this]
  have "fetch_batch e callIds 2 tm ?w2 = (?w2\<lparr>sent := sent ?w2 @ [?req]\<rparr>, Inl (GongRateLimitError d3))"
    by (intro fetch_batch_give_up) (simp_all add: max_retries_3)
  then show ?thesis
    by (simp add: two_signals_then[OF h ids r1 r2])
qed

lemma other_failure_skips_batch:
  assumes h: "getGongAuthHeader e = Inr h" and ids: "callIds \<noteq> []"
    and f: "fails_otherwise e (length (sent w)) (transcript_request h callIds)"
  shows "fetch_batch e callIds 0 tm w = (w\<lparr>sent := sent w @ [transcript_request h callIds]\<rparr>, Inr tm)"
proof -
  obtain err where "getTranscripts e callIds w = (w\<lparr>sent := sent w @ [transcript_request h callIds]\<rparr>, Inl err)"
    and "\<forall>d. err \<noteq> GongRateLimitError d"
    using getTranscripts_fails_otherwise[OF h ids f] by blast
  then show ?thesis
    by (intro fetch_batch_other) (simp_all add: max_retries_3)
qed

lemma first_success:
  assumes h: "getGongAuthHeader e = Inr h" and ids: "callIds \<noteq> []"
    and f: "succeeds e (length (sent w)) (transcript_request h callIds) resp"
  shows "fetch_batch e callIds 0 tm w =
           (w\<lparr>sent := sent w @ [transcript_request h callIds]\<rparr>, Inr (set_transcripts (callTranscripts resp) tm))"
  using getTranscripts_succeeds[OF h ids f]
  by (intro fetch_batch_success) (simp_all add: max_retries_3)

lemma fetch_transcripts_abort:
  assumes "i < length cs" and "fetch_batch e (chunk_ids cs i) 0 tm w = (w', Inl err)"
  shows "fetch_transcripts e cs i tm w = (w', Inl err)"
  using assms by (subst fetch_transcripts.simps) (simp add: chunk_ids_def Let_def)

lemma fetch_transcripts_continue:
  assumes "i < length cs" and "fetch_batch e (chunk_ids cs i) 0 tm w = (w', Inr tm')"
  shows "fetch_transcripts e cs i tm w = fetch_transcripts e cs (i + TRANSCRIPT_BATCH_SIZE) tm' w'"
  using assms by (subst fetch_transcripts.simps) (simp add: chunk_ids_def Let_def)

lemma fetch_transcripts_frame:
  "fetch_transcripts e cs i tm w = (w', res) \<Longrightarrow>
     tables w' = tables w \<and> journal w' = journal w \<and> clock_reads w' = clock_reads w"
proof (induction e cs i tm w arbitrary: w' res rule: fetch_transcripts.induct)
  case (1 e cs i tm w)
  show ?case
  proof (cases "i < length cs")
    case False
    with "1.prems" show ?thesis by (subst (asm) fetch_transcripts.simps) auto
  next
    case True
    obtain w1 r1 where b: "fetch_batch e (chunk_ids cs i) 0 tm w = (w1, r1)"
      by (cases "fetch_batch e (chunk_ids cs i) 0 tm w")
    note fr = fetch_batch_frame[OF b]
    show ?thesis
    proof (cases r1)
      case (Inl err)
      with fetch_transcripts_abort[OF True] b "1.prems" fr show ?thesis by auto
    next
      case (Inr tm')
      have "fetch_transcripts e cs (i + TRANSCRIPT_BATCH_SIZE) tm' w1 = (w', res)"
        using fetch_transcripts_continue[OF True] b Inr "1.prems" by auto
      from "1.IH"[OF True refl refl _ _ this] b Inr fr show ?thesis
        by (auto simp: chunk_ids_def)
    qed
  qed
qed

lemma sync_calls_abort:
  assumes "cs \<noteq> []" and "fetch_transcripts e cs 0 Map.empty w = (w', Inl err)"
  shows "sync_calls e cs force w = (w', Inl err)"
  using assms by (simp add: sync_calls_def)


lemma fetch_transcripts_done: "\<not> i < length cs \<Longrightarrow> fetch_transcripts e cs i tm w = (w, Inr tm)"
  by (subst fetch_transcripts.simps) simp

lemma sync_calls_error_from_fetch:
  "sync_calls e cs force w = (w', Inl err) \<Longrightarrow> fetch_transcripts e cs 0 Map.empty w = (w', Inl err)"
  by (auto simp: sync_calls_def split: if_splits prod.splits sum.splits)

lemma signals_then:
  assumes h: "getGongAuthHeader e = Inr h" and ids: "callIds \<noteq> []"
  shows "rc + length ds < MAX_RETRIES_PER_BATCH \<Longrightarrow>
     \<forall>i < length ds. rate_limited e (length (sent w) + i) (transcript_request h callIds) (ds ! i) \<Longrightarrow>
     fetch_batch e callIds rc tm w =
       fetch_batch e callIds (rc + length ds) tm
         (w\<lparr>sent := sent w @ replicate (length ds) (transcript_request h callIds),
            sleeps := sleeps w @ map times1000 ds\<rparr>)"
proof (induction ds arbitrary: rc w)
  case Nil
  then show ?case by simp
next
  case (Cons d ds)
  let ?req = "transcript_request h callIds"
  let ?w1 = "w\<lparr>sent := sent w @ [?req]\<rparr>"
  let ?w1s = "sleep (times1000 d) ?w1"
  have "rate_limited e (length (sent w)) ?req d"
    using Cons.prems(2) by force
  then have g: "getTranscripts e callIds w = (?w1, Inl (GongRateLimitError d))"
    by (rule getTranscripts_rate_limited[OF h ids])
  have step: "fetch_batch e callIds rc tm w = fetch_batch e callIds (Suc rc) tm ?w1s"
    by (rule fetch_batch_retry[OF _ g]) (use Cons.prems(1) in simp)
  have rest: "\<forall>i < length ds. rate_limited e (length (sent ?w1s) + i) ?req (ds ! i)"
  proof (intro allI impI)
    fix i assume "i < length ds"
    then have "Suc i < length (d # ds)" by simp
    with Cons.prems(2) have "rate_limited e (length (sent w) + Suc i) ?req ((d # ds) ! Suc i)" by blast
    then show "rate_limited e (length (sent ?w1s) + i) ?req (ds ! i)" by (simp add: sleep_def)
  qed
  have "fetch_batch e callIds (Suc rc) tm ?w1s =
          fetch_batch e callIds (Suc rc + length ds) tm
            (?w1s\<lparr>sent := sent ?w1s @ replicate (length ds) ?req, sleeps := sleeps ?w1s @ map times1000 ds\<rparr>)"
    by (rule Cons.IH[OF _ rest]) (use Cons.prems(1) in simp)
  with step show ?case by (simp add: sleep_def replicate_append_same)
qed

lemma signals_then_success:
  assumes h: "getGongAuthHeader e = Inr h" and ids: "callIds \<noteq> []"
    and n: "length ds \<le> 2"
    and r: "\<forall>i < length ds. rate_limited e (length (sent w) + i) (transcript_request h callIds) (ds ! i)"
    and s: "succeeds e (length (sent w) + length ds) (transcript_request h callIds) resp"
  shows "fetch_batch e callIds 0 tm w =
           (w\<lparr>sent := sent w @ replicate (Suc (length ds)) (transcript_request h callIds),
              sleeps := sleeps w @ map times1000 ds\<rparr>,
            Inr (set_transcripts (callTranscripts resp) tm))"
proof -
  let ?req = "transcript_request h callIds"
  let ?w2 = "w\<lparr>sent := sent w @ replicate (length ds) ?req, sleeps := sleeps w @ map times1000 ds\<rparr>"
  have lt: "0 + length ds < MAX_RETRIES_PER_BATCH" using n by (simp add: max_retries_3)
  have "succeeds e (length (sent ?w2)) ?req resp" using s by simp
  from getTranscripts_succeeds[OF h ids this]
  have "fetch_batch e callIds (0 + length ds) tm ?w2 =
          (?w2\<lparr>sent := sent ?w2 @ [?req]\<rparr>, Inr (set_transcripts (callTranscripts resp) tm))"
    by (intro fetch_batch_success) (use lt in simp_all)
  then show ?thesis
    by (simp add: signals_then[OF h ids lt r] replicate_append_same)
qed

lemma signals_then_other:
  assumes h: "getGongAuthHeader e = Inr h" and ids: "callIds \<noteq> []"
    and n: "length ds \<le> 2"
    and r: "\<forall>i < length ds. rate_limited e (length (sent w) + i) (transcript_request h callIds) (ds ! i)"
    and f: "fails_otherwise e (length (sent w) + length ds) (transcript_request h callIds)"
  shows "fetch_batch e callIds 0 tm w =
           (w\<lparr>sent := sent w @ replicate (Suc (length ds)) (transcript_request h callIds),
              sleeps := sleeps w @ map times1000 ds\<rparr>,
            Inr tm)"
proof -
  let ?req = "transcript_request h callIds"
  let ?w2 = "w\<lparr>sent := sent w @ replicate (length ds) ?req, sleeps := sleeps w @ map times1000 ds\<rparr>"
  have lt: "0 + length ds < MAX_RETRIES_PER_BATCH" using n by (simp add: max_retries_3)
  have "fails_otherwise e (length (sent ?w2)) ?req" using f by simp
  from getTranscripts_fails_otherwise[OF h ids this]
  obtain err where g: "getTranscripts e callIds ?w2 = (?w2\<lparr>sent := sent ?w2 @ [?req]\<rparr>, Inl err)"
    and ne: "\<forall>d. err \<noteq> GongRateLimitError d" by blast
  have "fetch_batch e callIds (0 + length ds) tm ?w2 = (?w2\<lparr>sent := sent ?w2 @ [?req]\<rparr>, Inr tm)"
    by (rule fetch_batch_other[OF _ g ne]) (use lt in simp)
  then show ?thesis
    by (simp add: signals_then[OF h ids lt r] replicate_append_same)
qed

lemma three_signals:
  assumes h: "getGongAuthHeader e = Inr h" and ids: "callIds \<noteq> []"
    and n: "length ds = 3"
    and r: "\<forall>i < length ds. rate_limited e (length (sent w) + i) (transcript_request h callIds) (ds ! i)"
  shows "fetch_batch e callIds 0 tm w =
           (w\<lparr>sent := sent w @ replicate 3 (transcript_request h callIds),
              sleeps := sleeps w @ map times1000 (take 2 ds)\<rparr>,
            Inl (GongRateLimitError (ds ! 2)))"
proof -
  let ?req = "transcript_request h callIds"
  let ?ds = "take 2 ds"
  let ?w2 = "w\<lparr>sent := sent w @ replicate (length ?ds) ?req, sleeps := sleeps w @ map times1000 ?ds\<rparr>"
  have l2: "length ?ds = 2" using n by simp
  have lt: "0 + length ?ds < MAX_RETRIES_PER_BATCH" by (simp add: l2 max_retries_3)
  have r2: "\<forall>i < length ?ds. rate_limited e (length (sent w) + i) ?req (?ds ! i)"
    using r n by simp
  have "rate_limited e (length (sent w) + 2) ?req (ds ! 2)"
    using r[rule_format, of 2] n by simp
  then have "rate_limited e (length (sent ?w2)) ?req (ds ! 2)" by (simp add: n)
  from getTranscripts_rate_limited[OF h ids this]
  have "fetch_batch e callIds (0 + length ?ds) tm ?w2 =
          (?w2\<lparr>sent := sent ?w2 @ [?req]\<rparr>, Inl (GongRateLimitError (ds ! 2)))"
    by (intro fetch_batch_give_up) (simp_all add: n max_retries_3)
  then show ?thesis
    using signals_then[OF h ids lt r2, of tm]
    by (simp add: n replicate_append_same numeral_3_eq_3 numeral_2_eq_2)
qed

lemma answer_cases:
  "(\<exists>d. rate_limited e j req d) \<or> (\<exists>resp. succeeds e j req resp) \<or> fails_otherwise e j req"
proof (cases "net_transcripts e j req")
  case (Inl u)
  then show ?thesis by (simp add: fails_otherwise_def)
next
  case (Inr r)
  then show ?thesis
    by (cases "body_json r") (auto simp: rate_limited_def succeeds_def fails_otherwise_def ok_def)
qed

lemma find_snoc: "find P (xs @ [x]) = (case find P xs of Some y \<Rightarrow> Some y | None \<Rightarrow> if P x then Some x else None)"
  by (induction xs) auto

lemma set_transcripts_lookup:
  "set_transcripts ts m cid =
     (case find (\<lambda>t. callId t = cid) (rev ts) of Some t \<Rightarrow> Some t | None \<Rightarrow> m cid)"
proof (induction ts arbitrary: m)
  case Nil
  then show ?case by simp
next
  case (Cons t ts)
  show ?case
    by (simp add: Cons.IH find_snoc split: option.splits)
qed

lemma fetch_batch_error:
  "fetch_batch e callIds retryCount tm w = (w', Inl err) \<Longrightarrow> \<exists>d. err = GongRateLimitError d"
proof (induction e callIds retryCount tm w arbitrary: w' err rule: fetch_batch.induct)
  case (1 e callIds retryCount tm w)
  show ?case
  proof (cases "retryCount < MAX_RETRIES_PER_BATCH")
    case False
    with "1.prems" show ?thesis by (subst (asm) fetch_batch.simps) auto
  next
    case True
    obtain w1 r1 where g: "getTranscripts e callIds w = (w1, r1)" by (cases "getTranscripts e callIds w")
    show ?thesis
    proof (cases r1)
      case (Inr resp)
      from fetch_batch_success[OF True] g Inr "1.prems" show ?thesis by auto
    next
      case (Inl err1)
      show ?thesis
      proof (cases "\<exists>d. err1 = GongRateLimitError d")
        case False
        then have "fetch_batch e callIds retryCount tm w = (w1, Inr tm)"
          using fetch_batch_other[OF True] g Inl by blast
        with "1.prems" show ?thesis by simp
      next
        case d: True
        then obtain d where d: "err1 = GongRateLimitError d" by blast
        show ?thesis
        proof (cases "Suc retryCount < MAX_RETRIES_PER_BATCH")
          case False
          with True have s: "Suc retryCount = MAX_RETRIES_PER_BATCH" by simp
          have "fetch_batch e callIds retryCount tm w = (w1, Inl (GongRateLimitError d))"
            using fetch_batch_give_up[OF s] g Inl d by simp
          with "1.prems" show ?thesis by auto
        next
          case t: True
          have eq: "fetch_batch e callIds (Suc retryCount) tm (sleep (times1000 d) w1) = (w', Inl err)"
            using fetch_batch_retry[OF t] g Inl d "1.prems" by auto
          have "\<not> MAX_RETRIES_PER_BATCH \<le> Suc retryCount" using t by simp
          from "1.IH"[OF True g[symmetric] Inl d this eq] show ?thesis .
        qed
      qed
    qed
  qed
qed

lemma fetch_transcripts_error:
  "fetch_transcripts e cs i tm w = (w', Inl err) \<Longrightarrow> \<exists>d. err = GongRateLimitError d"
proof (induction e cs i tm w arbitrary: w' err rule: fetch_transcripts.induct)
  case (1 e cs i tm w)
  show ?case
  proof (cases "i < length cs")
    case False
    with "1.prems" show ?thesis by (subst (asm) fetch_transcripts.simps) auto
  next
    case True
    obtain w1 r1 where b: "fetch_batch e (chunk_ids cs i) 0 tm w = (w1, r1)"
      by (cases "fetch_batch e (chunk_ids cs i) 0 tm w")
    show ?thesis
    proof (cases r1)
      case (Inl err1)
      with fetch_transcripts_abort[OF True] b "1.prems" fetch_batch_error[of e "chunk_ids cs i" 0 tm w w1 err1]
      show ?thesis by auto
    next
      case (Inr tm')
      have "fetch_transcripts e cs (i + TRANSCRIPT_BATCH_SIZE) tm' w1 = (w', Inl err)"
        using fetch_transcripts_continue[OF True] b Inr "1.prems" by auto
      from "1.IH"[OF True refl refl _ _ this] b Inr show ?thesis
        by (auto simp: chunk_ids_def)
    qed
  qed
qed


lemma thrown_after_three_signals:
  assumes h: "getGongAuthHeader e = Inr h" and ids: "callIds \<noteq> []"
    and thrown: "fetch_batch e callIds 0 tm w = (w', Inl err)"
  shows "\<exists>d1 d2 d3.
           rate_limited e (length (sent w)) (transcript_request h callIds) d1
         \<and> rate_limited e (length (sent w) + 1) (transcript_request h callIds) d2
         \<and> rate_limited e (length (sent w) + 2) (transcript_request h callIds) d3
         \<and> err = GongRateLimitError d3"
proof -
  let ?req = "transcript_request h callIds"
  let ?k = "length (sent w)"
  note ok = signals_then_success[OF h ids, of _ w _ tm]
  note other = signals_then_other[OF h ids, of _ w tm]
  from answer_cases[of e ?k ?req] show ?thesis
  proof (elim disjE exE)
    fix resp assume "succeeds e ?k ?req resp"
    with ok[of "[]" resp] thrown show ?thesis by simp
  next
    assume "fails_otherwise e ?k ?req"
    with other[of "[]"] thrown show ?thesis by simp
  next
    fix d1 assume r1: "rate_limited e ?k ?req d1"
    then have a1: "\<forall>i < length [d1]. rate_limited e (?k + i) ?req ([d1] ! i)" by simp
    from answer_cases[of e "?k + 1" ?req] show ?thesis
    proof (elim disjE exE)
      fix resp assume "succeeds e (?k + 1) ?req resp"
      with ok[of "[d1]" resp] a1 thrown show ?thesis by simp
    next
      assume "fails_otherwise e (?k + 1) ?req"
      with other[of "[d1]"] a1 thrown show ?thesis by simp
    next
      fix d2 assume r2: "rate_limited e (?k + 1) ?req d2"
      with r1 have a2: "\<forall>i < length [d1, d2]. rate_limited e (?k + i) ?req ([d1, d2] ! i)"
        by (simp add: less_Suc_eq)
      from answer_cases[of e "?k + 2" ?req] show ?thesis
      proof (elim disjE exE)
        fix resp assume "succeeds e (?k + 2) ?req resp"
        with ok[of "[d1, d2]" resp] a2 thrown show ?thesis by simp
      next
        assume "fails_otherwise e (?k + 2) ?req"
        with other[of "[d1, d2]"] a2 thrown show ?thesis by simp
      next
        fix d3 assume r3: "rate_limited e (?k + 2) ?req d3"
        with r1 r2 have a3: "\<forall>i < length [d1, d2, d3]. rate_limited e (?k + i) ?req ([d1, d2, d3] ! i)"
          by (simp add: less_Suc_eq)
        from three_signals[OF h ids _ a3, of tm] thrown have "err = GongRateLimitError d3" by simp
        with r1 r2 r3 show ?thesis by blast
      qed
    qed
  qed
qed

lemma sync_calls_error:
  assumes "sync_calls e cs force w = (w', Inl err)"
  shows "(\<exists>d. err = GongRateLimitError d) \<and> fetch_transcripts e cs 0 Map.empty w = (w', Inl err)"
  using sync_calls_error_from_fetch[OF assms] fetch_transcripts_error by blast

text \<open>
  Claim C2. For a batch of call ids, with the credentials set, let the answers of the
  provider to the requests of the batch be read in order. (1) When up to two rate-limit
  signals are followed by a successful response, the batch ends after one request more
  than there were signals, with exactly one sleep per signal, of the signalled durations
  in milliseconds and in order, and with the transcripts of the response put into the
  map. (2) When up to two signals are followed by any other failure, the batch ends the
  same way but leaves the map as it was, and throws nothing: only a rate-limit signal is
  retried. (3) Three signals in a row (so also four) make the batch throw the rate-limit
  error of the third, after three requests and two sleeps. (4) Every answer is a signal,
  a success or another failure, so these cases are all there are. (5) Putting transcripts
  into the map stores each one under its call id, a later one of the same id replacing an
  earlier one. (6) A batch throws only after three signals in a row. (7) Whatever the
  provider answers, a batch sends at most three requests, sleeps at most twice and writes
  nothing to the database. (8) An error thrown by a batch leaves the loop over the
  batches at once; (9) a batch that returns lets the loop go on with the next batch and
  the map it returned; (10) the loop ends after the last batch. (11) An error out of the
  loop is the error of the run from the listing on, which ends without any call
  processed and nothing written; and (12) that run throws nothing but a rate-limit error
  out of the transcript fetch.
\<close>

theorem fetch_batch_retry_policy:
  assumes h: "getGongAuthHeader e = Inr h" and ids: "callIds \<noteq> []"
    and req: "req = transcript_request h callIds" and k: "k = length (sent w)"
  shows
    "(\<forall>ds resp.
        length ds \<le> 2 \<and> (\<forall>i < length ds. rate_limited e (k + i) req (ds ! i))
        \<and> succeeds e (k + length ds) req resp \<longrightarrow>
        fetch_batch e callIds 0 tm w =
          (w\<lparr>sent := sent w @ replicate (Suc (length ds)) req, sleeps := sleeps w @ map times1000 ds\<rparr>,
           Inr (set_transcripts (callTranscripts resp) tm)))
     \<and> (\<forall>ds.
        length ds \<le> 2 \<and> (\<forall>i < length ds. rate_limited e (k + i) req (ds ! i))
        \<and> fails_otherwise e (k + length ds) req \<longrightarrow>
        fetch_batch e callIds 0 tm w =
          (w\<lparr>sent := sent w @ replicate (Suc (length ds)) req, sleeps := sleeps w @ map times1000 ds\<rparr>,
           Inr tm))
     \<and> (\<forall>d1 d2 d3.
        rate_limited e k req d1 \<and> rate_limited e (k + 1) req d2 \<and> rate_limited e (k + 2) req d3 \<longrightarrow>
        fetch_batch e callIds 0 tm w =
          (w\<lparr>sent := sent w @ [req, req, req], sleeps := sleeps w @ [times1000 d1, times1000 d2]\<rparr>,
           Inl (GongRateLimitError d3)))
     \<and> (\<forall>j. (\<exists>d. rate_limited e j req d) \<or> (\<exists>resp. succeeds e j req resp) \<or> fails_otherwise e j req)
     \<and> (\<forall>ts m cid. set_transcripts ts m cid =
          (case find (\<lambda>t. callId t = cid) (rev ts) of Some t \<Rightarrow> Some t | None \<Rightarrow> m cid))
     \<and> (\<forall>w' err. fetch_batch e callIds 0 tm w = (w', Inl err) \<longrightarrow>
        (\<exists>d1 d2 d3. rate_limited e k req d1 \<and> rate_limited e (k + 1) req d2
           \<and> rate_limited e (k + 2) req d3 \<and> err = GongRateLimitError d3))
     \<and> (\<forall>w' res. fetch_batch e callIds 0 tm w = (w', res) \<longrightarrow>
        length (sent w') \<le> length (sent w) + 3 \<and> length (sleeps w') \<le> length (sleeps w) + 2 \<and>
        tables w' = tables w \<and> journal w' = journal w)
     \<and> (\<forall>cs i w' err.
        i < length cs \<and> callIds = chunk_ids cs i \<and> fetch_batch e callIds 0 tm w = (w', Inl err) \<longrightarrow>
        fetch_transcripts e cs i tm w = (w', Inl err))
     \<and> (\<forall>cs i w' tm'.
        i < length cs \<and> callIds = chunk_ids cs i \<and> fetch_batch e callIds 0 tm w = (w', Inr tm') \<longrightarrow>
        fetch_transcripts e cs i tm w = fetch_transcripts e cs (i + 50) tm' w')
     \<and> (\<forall>cs i. \<not> i < length cs \<longrightarrow> fetch_transcripts e cs i tm w = (w, Inr tm))
     \<and> (\<forall>cs force w' err.
        cs \<noteq> [] \<and> fetch_transcripts e cs 0 Map.empty w = (w', Inl err) \<longrightarrow>
        sync_calls e cs force w = (w', Inl err) \<and> tables w' = tables w \<and> journal w' = journal w)
     \<and> (\<forall>cs force w' err.
        sync_calls e cs force w = (w', Inl err) \<longrightarrow>
        (\<exists>d. err = GongRateLimitError d) \<and> fetch_transcripts e cs 0 Map.empty w = (w', Inl err))"
proof (intro conjI allI impI)
  fix ds resp
  assume "length ds \<le> 2 \<and> (\<forall>i < length ds. rate_limited e (k + i) req (ds ! i))
        \<and> succeeds e (k + length ds) req resp"
  then show "fetch_batch e callIds 0 tm w =
          (w\<lparr>sent := sent w @ replicate (Suc (length ds)) req, sleeps := sleeps w @ map times1000 ds\<rparr>,
           Inr (set_transcripts (callTranscripts resp) tm))"
    unfolding req k by (intro signals_then_success[OF h ids]) simp_all
next
  fix ds
  assume "length ds \<le> 2 \<and> (\<forall>i < length ds. rate_limited e (k + i) req (ds ! i))
        \<and> fails_otherwise e (k + length ds) req"
  then show "fetch_batch e callIds 0 tm w =
          (w\<lparr>sent := sent w @ replicate (Suc (length ds)) req, sleeps := sleeps w @ map times1000 ds\<rparr>,
           Inr tm)"
    unfolding req k by (intro signals_then_other[OF h ids]) simp_all
next
  fix d1 d2 d3
  assume "rate_limited e k req d1 \<and> rate_limited e (k + 1) req d2 \<and> rate_limited e (k + 2) req d3"
  then show "fetch_batch e callIds 0 tm w =
          (w\<lparr>sent := sent w @ [req, req, req], sleeps := sleeps w @ [times1000 d1, times1000 d2]\<rparr>,
           Inl (GongRateLimitError d3))"
    unfolding req k by (intro retry_cap_exceeded[OF h ids]) simp_all
next
  fix j
  show "(\<exists>d. rate_limited e j req d) \<or> (\<exists>resp. succeeds e j req resp) \<or> fails_otherwise e j req"
    by (rule answer_cases)
next
  fix ts m cid
  show "set_transcripts ts m cid =
          (case find (\<lambda>t. callId t = cid) (rev ts) of Some t \<Rightarrow> Some t | None \<Rightarrow> m cid)"
    by (rule set_transcripts_lookup)
next
  fix w' err
  assume "fetch_batch e callIds 0 tm w = (w', Inl err)"
  then show "\<exists>d1 d2 d3. rate_limited e k req d1 \<and> rate_limited e (k + 1) req d2
           \<and> rate_limited e (k + 2) req d3 \<and> err = GongRateLimitError d3"
    unfolding req k by (rule thrown_after_three_signals[OF h ids])
next
  fix w' res
  assume b: "fetch_batch e callIds 0 tm w = (w', res)"
  from fetch_batch_frame[OF b]
  show "length (sent w') \<le> length (sent w) + 3" "length (sleeps w') \<le> length (sleeps w) + 2"
    "tables w' = tables w" "journal w' = journal w"
    by (simp_all add: max_retries_3)
next
  fix cs i w' err
  assume "i < length cs \<and> callIds = chunk_ids cs i \<and> fetch_batch e callIds 0 tm w = (w', Inl err)"
  then show "fetch_transcripts e cs i tm w = (w', Inl err)"
    using fetch_transcripts_abort by blast
next
  fix cs i w' tm'
  assume "i < length cs \<and> callIds = chunk_ids cs i \<and> fetch_batch e callIds 0 tm w = (w', Inr tm')"
  then show "fetch_transcripts e cs i tm w = fetch_transcripts e cs (i + 50) tm' w'"
    using fetch_transcripts_continue[of i cs e tm w w' tm'] by (auto simp: TRANSCRIPT_BATCH_SIZE_def)
next
  fix cs :: "call_data list" and i
  assume "\<not> i < length cs"
  then show "fetch_transcripts e cs i tm w = (w, Inr tm)"
    by (rule fetch_transcripts_done)
next
  fix cs force w' err
  assume a: "cs \<noteq> [] \<and> fetch_transcripts e cs 0 Map.empty w = (w', Inl err)"
  then show "sync_calls e cs force w = (w', Inl err)"
    using sync_calls_abort by blast
  from a fetch_transcripts_frame show "tables w' = tables w" "journal w' = journal w"
    by blast+
next
  fix cs force w' err
  assume a: "sync_calls e cs force w = (w', Inl err)"
  from sync_calls_error[OF a]
  show "\<exists>d. err = GongRateLimitError d" "fetch_transcripts e cs 0 Map.empty w = (w', Inl err)"
    by blast+
qed

text \<open>The run from the listing on is \<open>sync_calls\<close>.\<close>

lemma sync_after_listing:
  assumes "isGongConfigured e"
    and "find (\<lambda>arg. take 9 arg = ''--months='') (argv e) = None"
    and "listAllCalls e
           \<lparr>opt_fromDateTime = Some (minus_months e (clock e (Suc (clock_reads w))) 3),
            opt_toDateTime = Some (clock e (clock_reads w)),
            opt_cursor = None, opt_includeMedia = True\<rparr>
           (w\<lparr>clock_reads := Suc (Suc (clock_reads w))\<rparr>) = Some (w3, Inr cs)"
  shows "sync e w = Some (sync_calls e cs (''--force'' \<in> set (argv e)) w3)"
  using assms by (simp add: sync_def initDb_def read_clock_def Let_def)

theorem fetch_batch_retry_policy_witness:
  "(fetch_batch (env0\<lparr>net_transcripts := throttled 0 2 \<lparr>callTranscripts = [transcript0 ''1'']\<rparr>\<rparr>)
          [''1'', ''2''] 0 Map.empty world0
     = (world0\<lparr>sent := replicate 3 (transcript_request (''key'', ''secret'') [''1'', ''2'']),
               sleeps := [Num 5000, Num 7000]\<rparr>,
        Inr [''1'' \<mapsto> transcript0 ''1''])
   \<and> fetch_batch (env0\<lparr>net_transcripts := throttled_then_down 0 1\<rparr>)
          [''1'', ''2''] 0 [''9'' \<mapsto> transcript0 ''9''] world0
     = (world0\<lparr>sent := replicate 2 (transcript_request (''key'', ''secret'') [''1'', ''2'']),
               sleeps := [Num 5000]\<rparr>,
        Inr [''9'' \<mapsto> transcript0 ''9''])
   \<and> snd (fetch_batch (env0\<lparr>net_transcripts := throttled 0 4 \<lparr>callTranscripts = [transcript0 ''1'']\<rparr>\<rparr>)
          [''1'', ''2''] 0 Map.empty world0)
     = Inl (GongRateLimitError (Num 7)))
   \<and> (map_option snd (sync (env0\<lparr>net_calls := serve_pages one_page,
                              net_transcripts := throttled 1 4 \<lparr>callTranscripts = [transcript0 ''1'']\<rparr>\<rparr>) world0)
     = Some (Inl (GongRateLimitError (Num 7)))
   \<and> map_option (tables \<circ> fst) (sync (env0\<lparr>net_calls := serve_pages one_page,
                              net_transcripts := throttled 1 4 \<lparr>callTranscripts = [transcript0 ''1'']\<rparr>\<rparr>) world0)
     = Some (tables world0)
   \<and> map_option (sleeps \<circ> fst) (sync (env0\<lparr>net_calls := serve_pages one_page,
                              net_transcripts := throttled 1 4 \<lparr>callTranscripts = [transcript0 ''1'']\<rparr>\<rparr>) world0)
     = Some [Num 5000, Num 7000])"
proof (rule conjI)
  show "fetch_batch (env0\<lparr>net_transcripts := throttled 0 2 \<lparr>callTranscripts = [transcript0 ''1'']\<rparr>\<rparr>)
          [''1'', ''2''] 0 Map.empty world0
     = (world0\<lparr>sent := replicate 3 (transcript_request (''key'', ''secret'') [''1'', ''2'']),
               sleeps := [Num 5000, Num 7000]\<rparr>,
        Inr [''1'' \<mapsto> transcript0 ''1''])
   \<and> fetch_batch (env0\<lparr>net_transcripts := throttled_then_down 0 1\<rparr>)
          [''1'', ''2''] 0 [''9'' \<mapsto> transcript0 ''9''] world0
     = (world0\<lparr>sent := replicate 2 (transcript_request (''key'', ''secret'') [''1'', ''2'']),
               sleeps := [Num 5000]\<rparr>,
        Inr [''9'' \<mapsto> transcript0 ''9''])
   \<and> snd (fetch_batch (env0\<lparr>net_transcripts := throttled 0 4 \<lparr>callTranscripts = [transcript0 ''1'']\<rparr>\<rparr>)
          [''1'', ''2''] 0 Map.empty world0)
     = Inl (GongRateLimitError (Num 7))"
  proof -
    let ?resp = "\<lparr>callTranscripts = [transcript0 ''1'']\<rparr>"
    let ?e2 = "env0\<lparr>net_transcripts := throttled 0 2 ?resp\<rparr>"
    let ?e1 = "env0\<lparr>net_transcripts := throttled_then_down 0 1\<rparr>"
    let ?e4 = "env0\<lparr>net_transcripts := throttled 0 4 ?resp\<rparr>"
    let ?req = "transcript_request (''key'', ''secret'') [''1'', ''2'']"
    have p5: "parseInt10 ''5'' = Num 5" and p7: "parseInt10 ''7'' = Num 7" by code_simp+
    have h2: "getGongAuthHeader ?e2 = Inr (''key'', ''secret'')"
      and h1: "getGongAuthHeader ?e1 = Inr (''key'', ''secret'')"
      and h4: "getGongAuthHeader ?e4 = Inr (''key'', ''secret'')"
      by (simp_all add: getGongAuthHeader_def env0_def)
    have k: "0 = length (sent world0)" by (simp add: world0_def)
    have a: "length [Num 5, Num 7] \<le> 2
             \<and> (\<forall>i < length [Num 5, Num 7]. rate_limited ?e2 (0 + i) ?req ([Num 5, Num 7] ! i))
             \<and> succeeds ?e2 (0 + length [Num 5, Num 7]) ?req ?resp"
      by (simp add: rate_limited_def succeeds_def throttled_def reply_def ok_def p5 p7 less_Suc_eq)
    have c: "length [Num 5] \<le> 2
             \<and> (\<forall>i < length [Num 5]. rate_limited ?e1 (0 + i) ?req ([Num 5] ! i))
             \<and> fails_otherwise ?e1 (0 + length [Num 5]) ?req"
      by (simp add: rate_limited_def fails_otherwise_def throttled_then_down_def reply_def ok_def p5)
    have b: "rate_limited ?e4 0 ?req (Num 5) \<and> rate_limited ?e4 (0 + 1) ?req (Num 7) \<and> rate_limited ?e4 (0 + 2) ?req (Num 7)"
      by (simp add: rate_limited_def throttled_def reply_def p5 p7)
    have ids: "[''1'', ''2''] \<noteq> ([] :: string list)" by simp
    have "fetch_batch ?e2 [''1'', ''2''] 0 Map.empty world0 =
         (world0\<lparr>sent := sent world0 @ replicate (Suc (length [Num 5, Num 7])) ?req,
                 sleeps := sleeps world0 @ map times1000 [Num 5, Num 7]\<rparr>,
          Inr (set_transcripts (callTranscripts ?resp) Map.empty))"
      by (rule fetch_batch_retry_policy[OF h2 ids refl k, THEN conjunct1, rule_format, OF a])
    moreover have "fetch_batch ?e1 [''1'', ''2''] 0 [''9'' \<mapsto> transcript0 ''9''] world0 =
         (world0\<lparr>sent := sent world0 @ replicate (Suc (length [Num 5])) ?req,
                 sleeps := sleeps world0 @ map times1000 [Num 5]\<rparr>,
          Inr [''9'' \<mapsto> transcript0 ''9''])"
      by (rule fetch_batch_retry_policy[OF h1 ids refl k, THEN conjunct2, THEN conjunct1, rule_format, OF c])
    moreover have "fetch_batch ?e4 [''1'', ''2''] 0 Map.empty world0 =
         (world0\<lparr>sent := sent world0 @ [?req, ?req, ?req], sleeps := sleeps world0 @ [times1000 (Num 5), times1000 (Num 7)]\<rparr>,
          Inl (GongRateLimitError (Num 7)))"
      by (rule fetch_batch_retry_policy[OF h4 ids refl k, THEN conjunct2, THEN conjunct2, THEN conjunct1, rule_format, OF b])
    ultimately show ?thesis
      by (simp add: world0_def numeral_3_eq_3 numeral_2_eq_2 transcript0_def)
  qed
next
  show "map_option snd (sync (env0\<lparr>net_calls := serve_pages one_page,
                              net_transcripts := throttled 1 4 \<lparr>callTranscripts = [transcript0 ''1'']\<rparr>\<rparr>) world0)
     = Some (Inl (GongRateLimitError (Num 7)))
   \<and> map_option (tables \<circ> fst) (sync (env0\<lparr>net_calls := serve_pages one_page,
                              net_transcripts := throttled 1 4 \<lparr>callTranscripts = [transcript0 ''1'']\<rparr>\<rparr>) world0)
     = Some (tables world0)
   \<and> map_option (sleeps \<circ> fst) (sync (env0\<lparr>net_calls := serve_pages one_page,
                              net_transcripts := throttled 1 4 \<lparr>callTranscripts = [transcript0 ''1'']\<rparr>\<rparr>) world0)
     = Some [Num 5000, Num 7000]"
  proof -
    let ?resp = "\<lparr>callTranscripts = [transcript0 ''1'']\<rparr>"
    let ?e = "env0\<lparr>net_calls := serve_pages one_page, net_transcripts := throttled 1 4 ?resp\<rparr>"
    let ?req = "transcript_request (''key'', ''secret'') [''1'', ''2'']"
    let ?cs = "[call0 ''1'', call0 ''2'']"
    let ?opts = "\<lparr>opt_fromDateTime = Some (minus_months ?e (clock ?e (Suc (clock_reads world0))) 3),
              opt_toDateTime = Some (clock ?e (clock_reads world0)),
              opt_cursor = None, opt_includeMedia = True\<rparr>"
    let ?w3 = "world0\<lparr>clock_reads := 2, sent := [calls_request (''key'', ''secret'') ?opts None]\<rparr>"
    have p5: "parseInt10 ''5'' = Num 5" and p7: "parseInt10 ''7'' = Num 7" by code_simp+
    have h: "getGongAuthHeader ?e = Inr (''key'', ''secret'')"
      by (simp add: getGongAuthHeader_def env0_def)
    have cfg: "isGongConfigured ?e" and args: "find (\<lambda>arg. take 9 arg = ''--months='') (argv ?e) = None"
      by (simp_all add: isGongConfigured_def env0_def)
    have sv: "serves ?e (''key'', ''secret'') ?opts
                (length (sent (world0\<lparr>clock_reads := Suc (Suc (clock_reads world0))\<rparr>))) None one_page"
      using serves_serve_pages[of ?e one_page] by (simp add: world0_def)
    have "listAllCalls ?e ?opts (world0\<lparr>clock_reads := Suc (Suc (clock_reads world0))\<rparr>) = Some (?w3, Inr ?cs)"
      using listAllCalls_pages[OF h _ sv] by (simp add: one_page_def world0_def)
    from sync_after_listing[OF cfg args this]
    have s: "sync ?e world0 = Some (sync_calls ?e ?cs False ?w3)"
      by (simp add: env0_def)
    have ids: "[''1'', ''2''] \<noteq> ([] :: string list)" by simp
    have k: "1 = length (sent ?w3)" by simp
    have b: "rate_limited ?e 1 ?req (Num 5) \<and> rate_limited ?e (1 + 1) ?req (Num 7) \<and> rate_limited ?e (1 + 2) ?req (Num 7)"
      by (simp add: rate_limited_def throttled_def reply_def p5 p7)
    note pol = fetch_batch_retry_policy[OF h ids refl k, of Map.empty]
    let ?w4 = "?w3\<lparr>sent := sent ?w3 @ [?req, ?req, ?req], sleeps := sleeps ?w3 @ [times1000 (Num 5), times1000 (Num 7)]\<rparr>"
    have fb: "fetch_batch ?e [''1'', ''2''] 0 Map.empty ?w3 = (?w4, Inl (GongRateLimitError (Num 7)))"
      by (rule pol[THEN conjunct2, THEN conjunct2, THEN conjunct1, rule_format, OF b])
    have ch: "[''1'', ''2''] = chunk_ids ?cs 0"
      by (simp add: chunk_ids_def call0_def TRANSCRIPT_BATCH_SIZE_def)
    have ft: "fetch_transcripts ?e ?cs 0 Map.empty ?w3 = (?w4, Inl (GongRateLimitError (Num 7)))"
      by (rule pol[THEN conjunct2, THEN conjunct2, THEN conjunct2, THEN conjunct2, THEN conjunct2, THEN conjunct2,
                    THEN conjunct2, THEN conjunct1, rule_format])
         (intro conjI ch fb, simp)
    have "sync_calls ?e ?cs False ?w3 = (?w4, Inl (GongRateLimitError (Num 7)))"
      using pol[THEN conjunct2, THEN conjunct2, THEN conjunct2, THEN conjunct2, THEN conjunct2, THEN conjunct2,
                THEN conjunct2, THEN conjunct2, THEN conjunct2, THEN conjunct2, THEN conjunct1, rule_format,
                of ?cs ?w4 "GongRateLimitError (Num 7)" False] ft
      by simp
    with s show ?thesis by (simp add: world0_def)
  qed
qed


section \<open>The run\<close>

subsection \<open>Missing credentials\<close>

text \<open>
  Claim C9, as the code has it. When a credential is missing or empty the run returns at
  once and normally, with the outcome "not configured": the state is the one it started
  from, so no request was sent, the clock was not read and no row was written. The client
  would throw its error for missing credentials, but the run never calls it.
\<close>

theorem sync_without_credentials:
  assumes "\<not> truthy (GONG_ACCESS_KEY e) \<or> \<not> truthy (GONG_ACCESS_KEY_SECRET e)"
  shows "sync e w = Some (w, Inr NotConfigured) \<and> getGongAuthHeader e = Inl MissingCredentials"
  using assms by (auto simp: sync_def isGongConfigured_def getGongAuthHeader_def)

theorem sync_without_credentials_witness:
  "sync (env0\<lparr>GONG_ACCESS_KEY := None\<rparr>) (world0\<lparr>clock_reads := 4\<rparr>)
       = Some (world0\<lparr>clock_reads := 4\<rparr>, Inr NotConfigured)
   \<and> getGongAuthHeader (env0\<lparr>GONG_ACCESS_KEY := None\<rparr>) = Inl MissingCredentials"
proof -
  have n: "\<not> truthy (GONG_ACCESS_KEY (env0\<lparr>GONG_ACCESS_KEY := None\<rparr>))
           \<or> \<not> truthy (GONG_ACCESS_KEY_SECRET (env0\<lparr>GONG_ACCESS_KEY := None\<rparr>))"
    by simp
  show ?thesis by (rule sync_without_credentials[OF n])
qed

text \<open>
  The claim as the specification states it fails: with an empty secret the run is not a
  failure, it returns.
\<close>

theorem sync_without_credentials_returns:
  "sync (env0\<lparr>GONG_ACCESS_KEY_SECRET := Some []\<rparr>) world0 = Some (world0, Inr NotConfigured)"
  by (simp add: sync_def isGongConfigured_def env0_def)

subsection \<open>A run over one page of calls\<close>

lemma succeeds_throttled: "k0 + n \<le> k \<Longrightarrow> net_transcripts e = throttled k0 n resp \<Longrightarrow> succeeds e k req resp"
  by (simp add: succeeds_def throttled_def reply_def ok_def)

lemma sync_env_of:
  assumes "cs \<noteq> []" "length cs \<le> 50"
  shows "sync (env_of cs ts) world0 =
     Some (case process_calls (env_of cs ts) cs (set_transcripts ts Map.empty) False
                 (world0\<lparr>clock_reads := 2,
                    sent := [calls_request (''key'', ''secret'')
                               \<lparr>opt_fromDateTime = Some (- 7775999000), opt_toDateTime = Some 0,
                                opt_cursor = None, opt_includeMedia = True\<rparr> None,
                             transcript_request (''key'', ''secret'') (map (\<lambda>c. call_id (metaData c)) cs)]\<rparr>) of
             (w2, results) \<Rightarrow> (w2, Inr (Complete (summarise results))))"
proof -
  let ?e = "env_of cs ts"
  let ?opts = "\<lparr>opt_fromDateTime = Some (- 7775999000), opt_toDateTime = Some 0,
                 opt_cursor = None, opt_includeMedia = True\<rparr>"
  let ?w3 = "world0\<lparr>clock_reads := 2, sent := [calls_request (''key'', ''secret'') ?opts None]\<rparr>"
  let ?ids = "map (\<lambda>c. call_id (metaData c)) cs"
  have h: "getGongAuthHeader ?e = Inr (''key'', ''secret'')"
    by (simp add: getGongAuthHeader_def env0_def env_of_def)
  have cfg: "isGongConfigured ?e" and args: "find (\<lambda>arg. take 9 arg = ''--months='') (argv ?e) = None"
    by (simp_all add: isGongConfigured_def env0_def env_of_def)
  have sv: "serves ?e (''key'', ''secret'') ?opts
              (length (sent (world0\<lparr>clock_reads := Suc (Suc (clock_reads world0))\<rparr>))) None
              [\<lparr>records_cursor = None, calls = cs\<rparr>]"
    using serves_serve_pages[of ?e "[\<lparr>records_cursor = None, calls = cs\<rparr>]"] by (simp add: world0_def env_of_def)
  have "listAllCalls ?e ?opts (world0\<lparr>clock_reads := Suc (Suc (clock_reads world0))\<rparr>) = Some (?w3, Inr cs)"
    using listAllCalls_pages[OF h _ sv] by (simp add: world0_def)
  moreover have "minus_months ?e (clock ?e (Suc (clock_reads world0))) 3 = - 7775999000"
    and "clock ?e (clock_reads world0) = 0"
    by (simp_all add: env_of_def env0_def world0_def)
  ultimately have s: "sync ?e world0 = Some (sync_calls ?e cs False ?w3)"
    using sync_after_listing[OF cfg args, of world0 ?w3 cs] by (simp add: env0_def env_of_def)
  have ids: "?ids \<noteq> []" using assms by simp
  have "succeeds ?e (length (sent ?w3)) (transcript_request (''key'', ''secret'') ?ids) \<lparr>callTranscripts = ts\<rparr>"
    by (rule succeeds_throttled[of 0 0]) (simp_all add: env_of_def)
  from first_success[OF h ids this, of Map.empty]
  have fb: "fetch_batch ?e (chunk_ids cs 0) 0 Map.empty ?w3 =
      (?w3\<lparr>sent := sent ?w3 @ [transcript_request (''key'', ''secret'') ?ids]\<rparr>, Inr (set_transcripts ts Map.empty))"
    using assms by (simp add: chunk_ids_def TRANSCRIPT_BATCH_SIZE_def)
  have "fetch_transcripts ?e cs 0 Map.empty ?w3 =
      (?w3\<lparr>sent := sent ?w3 @ [transcript_request (''key'', ''secret'') ?ids]\<rparr>, Inr (set_transcripts ts Map.empty))"
    using fetch_transcripts_continue[OF _ fb] assms
    by (simp add: fetch_transcripts_done TRANSCRIPT_BATCH_SIZE_def)
  then show ?thesis using assms s by (simp add: sync_calls_def)
qed

lemma sync_one_page:
  assumes cs: "cs \<noteq> []" "length cs \<le> 50"
    and h: "getGongAuthHeader e = Inr h" and cfg: "isGongConfigured e" and av: "argv e = []"
    and nc: "net_calls e = serve_pages [\<lparr>records_cursor = None, calls = cs\<rparr>]"
    and nt: "net_transcripts e = throttled 0 0 \<lparr>callTranscripts = ts\<rparr>"
    and sw: "sent w = []"
  shows "sync e w =
     Some (case process_calls e cs (set_transcripts ts Map.empty) False
                 (w\<lparr>clock_reads := Suc (Suc (clock_reads w)),
                    sent := [calls_request h
                               \<lparr>opt_fromDateTime = Some (minus_months e (clock e (Suc (clock_reads w))) 3),
                                opt_toDateTime = Some (clock e (clock_reads w)),
                                opt_cursor = None, opt_includeMedia = True\<rparr> None,
                             transcript_request h (map (\<lambda>c. call_id (metaData c)) cs)]\<rparr>) of
             (w2, results) \<Rightarrow> (w2, Inr (Complete (summarise results))))"
proof -
  define opts where "opts = \<lparr>opt_fromDateTime = Some (minus_months e (clock e (Suc (clock_reads w))) 3),
                 opt_toDateTime = Some (clock e (clock_reads w)),
                 opt_cursor = None, opt_includeMedia = True\<rparr>"
  define w3 where "w3 = w\<lparr>clock_reads := Suc (Suc (clock_reads w)), sent := [calls_request h opts None]\<rparr>"
  let ?ids = "map (\<lambda>c. call_id (metaData c)) cs"
  have args: "find (\<lambda>arg. take 9 arg = ''--months='') (argv e) = None"
    by (simp add: av)
  have sv: "serves e h opts (length (sent (w\<lparr>clock_reads := Suc (Suc (clock_reads w))\<rparr>))) None
              [\<lparr>records_cursor = None, calls = cs\<rparr>]"
    using serves_serve_pages[OF nc, of h opts None] by (simp add: sw)
  have "listAllCalls e opts (w\<lparr>clock_reads := Suc (Suc (clock_reads w))\<rparr>) = Some (w3, Inr cs)"
    using listAllCalls_pages[OF h _ sv] by (simp add: sw w3_def)
  then have s: "sync e w = Some (sync_calls e cs False w3)"
    using sync_after_listing[OF cfg args, of w w3 cs] by (simp add: av opts_def)
  have ids: "?ids \<noteq> []" using cs by simp
  have l3: "sent w3 = [calls_request h opts None]" by (simp add: w3_def)
  have "succeeds e (length (sent w3)) (transcript_request h ?ids) \<lparr>callTranscripts = ts\<rparr>"
    by (rule succeeds_throttled[of 0 0]) (simp_all add: nt)
  from first_success[OF h ids this, of Map.empty]
  have fb: "fetch_batch e (chunk_ids cs 0) 0 Map.empty w3 =
      (w3\<lparr>sent := sent w3 @ [transcript_request h ?ids]\<rparr>, Inr (set_transcripts ts Map.empty))"
    using cs by (simp add: chunk_ids_def TRANSCRIPT_BATCH_SIZE_def)
  have "fetch_transcripts e cs 0 Map.empty w3 =
      (w3\<lparr>sent := sent w3 @ [transcript_request h ?ids]\<rparr>, Inr (set_transcripts ts Map.empty))"
    using fetch_transcripts_continue[OF _ fb] cs
    by (simp add: fetch_transcripts_done TRANSCRIPT_BATCH_SIZE_def)
  then show ?thesis using cs s by (simp add: sync_calls_def w3_def opts_def)
qed

subsection \<open>The per-call step\<close>

lemma isRecentlySynced_frame:
  "tables (fst (isRecentlySynced e rid w)) = tables w \<and> journal (fst (isRecentlySynced e rid w)) = journal w
   \<and> sent (fst (isRecentlySynced e rid w)) = sent w \<and> sleeps (fst (isRecentlySynced e rid w)) = sleeps w"
  by (simp add: isRecentlySynced_def read_clock_def split: option.splits)

lemma processCall_no_media:
  assumes "\<not> truthy (media_url c)"
  shows "tables (fst (processCall e c tm force w)) = tables w
       \<and> journal (fst (processCall e c tm force w)) = journal w
       \<and> sent (fst (processCall e c tm force w)) = sent w
       \<and> \<not> synced (snd (processCall e c tm force w))
       \<and> (skipped (snd (processCall e c tm force w)) \<longleftrightarrow>
            \<not> force \<and> snd (isRecentlySynced e (recording_id c) w))"
  using assms isRecentlySynced_frame[of e "recording_id c" w]
  by (cases "isRecentlySynced e (recording_id c) w")
     (auto simp: processCall_def Let_def)

lemma n_failed_Cons:
  "n_failed (summarise (r # rs)) = (if \<not> synced r \<and> \<not> skipped r then Suc (n_failed (summarise rs)) else n_failed (summarise rs))"
  "n_skipped (summarise (r # rs)) = (if skipped r then Suc (n_skipped (summarise rs)) else n_skipped (summarise rs))"
  "n_synced (summarise (r # rs)) = (if synced r then Suc (n_synced (summarise rs)) else n_synced (summarise rs))"
  by (simp_all add: summarise_def)


text \<open>
  Claim C7, as the code has it. A call whose media URL for its media kind is absent or
  empty is left without any write to the database and without a request; its result is
  never "synced", and it is "skipped" only when the freshness test skips it before the
  URL is looked at. Otherwise the result is neither synced nor skipped, which the summary
  counts as failed and not as skipped. The run goes on: only the transcript fetch can
  make the run from the listing on end with an error.
\<close>

theorem processCall_no_media_url:
  assumes "\<not> truthy (media_url c)"
  shows "tables (fst (processCall e c tm force w)) = tables w
       \<and> journal (fst (processCall e c tm force w)) = journal w
       \<and> sent (fst (processCall e c tm force w)) = sent w
       \<and> \<not> synced (snd (processCall e c tm force w))
       \<and> (skipped (snd (processCall e c tm force w)) \<longleftrightarrow>
            \<not> force \<and> snd (isRecentlySynced e (recording_id c) w))
       \<and> (\<not> skipped (snd (processCall e c tm force w)) \<longrightarrow>
            n_failed (summarise (snd (processCall e c tm force w) # rs)) = Suc (n_failed (summarise rs))
            \<and> n_skipped (summarise (snd (processCall e c tm force w) # rs)) = n_skipped (summarise rs)
            \<and> n_synced (summarise (snd (processCall e c tm force w) # rs)) = n_synced (summarise rs))
       \<and> (\<forall>cs w0 w' err. sync_calls e cs force w0 = (w', Inl err) \<longrightarrow>
            fetch_transcripts e cs 0 Map.empty w0 = (w', Inl err))"
  using processCall_no_media[OF assms, of e tm force w] sync_calls_error_from_fetch
  by (simp add: n_failed_Cons)

theorem processCall_no_media_url_witness:
  "\<not> truthy (media_url (audio_only ''9''))
   \<and> processCall env0 (audio_only ''9'') Map.empty True world0
       = (world0, \<lparr>synced = False, skipped = False, title = ''Call 9''\<rparr>)
   \<and> summarise [snd (processCall env0 (audio_only ''9'') Map.empty True world0)]
       = \<lparr>n_synced = 0, n_skipped = 0, n_failed = 1\<rparr>"
proof -
  have m: "\<not> truthy (media_url (audio_only ''9''))"
    by (simp add: media_url_def audio_only_def call0_def)
  from processCall_no_media_url[OF m, of env0 Map.empty True world0 "[]"] m
  show ?thesis
    by (simp add: processCall_def audio_only_def call0_def media_url_def summarise_def Let_def)
qed

text \<open>
  The claim as the specification states it fails: a run whose only call has no video URL
  reports no skipped call and one failed call.
\<close>

theorem no_media_url_counted_as_failed:
  "map_option snd (sync (env_of [audio_only ''9''] []) world0)
     = Some (Inr (Complete \<lparr>n_synced = 0, n_skipped = 0, n_failed = 1\<rparr>))"
  by (simp add: sync_env_of)
     (simp add: processCall_def isRecentlySynced_def world0_def recording_id_def media_url_def
        audio_only_def call0_def summarise_def Let_def)



subsection \<open>The writes of a processed call\<close>

lemma upsert_delete:
  "deleteRecordingData (in_id inp)
     (upsertRecording e inp w) =
   w\<lparr>clock_reads := Suc (clock_reads w),
      tables := last (cleared_states
           \<lparr>rec_id = in_id inp, rec_title = in_title inp, rec_description = in_description inp,
            rec_video_url = in_videoUrl inp, rec_duration = in_duration inp, rec_space = in_space inp,
            rec_source = in_source inp, rec_media_type = in_mediaType inp,
            rec_media_url_expires_at = in_mediaUrlExpiresAt inp, rec_created_at = in_createdAt inp,
            rec_synced_at = clock e (clock_reads w)\<rparr> (tables w)),
      journal := journal w @ cleared_states
           \<lparr>rec_id = in_id inp, rec_title = in_title inp, rec_description = in_description inp,
            rec_video_url = in_videoUrl inp, rec_duration = in_duration inp, rec_space = in_space inp,
            rec_source = in_source inp, rec_media_type = in_mediaType inp,
            rec_media_url_expires_at = in_mediaUrlExpiresAt inp, rec_created_at = in_createdAt inp,
            rec_synced_at = clock e (clock_reads w)\<rparr> (tables w)\<rparr>"
  by (simp add: deleteRecordingData_def upsertRecording_def read_clock_def commit_def cleared_states_def Let_def)

lemma run_all_insert_segment:
  "run_all insert_segment rows t = Inr t' \<Longrightarrow> t' = t\<lparr>segments := segments t @ rows\<rparr>"
proof (induction rows arbitrary: t)
  case Nil
  then show ?case by simp
next
  case (Cons r rows)
  from Cons.prems obtain t1 where t1: "insert_segment r t = Inr t1" and rest: "run_all insert_segment rows t1 = Inr t'"
    by (auto split: sum.splits)
  from t1 have "t1 = t\<lparr>segments := segments t @ [r]\<rparr>"
    by (auto simp: insert_segment_def split: if_splits)
  with Cons.IH[OF rest] show ?case by simp
qed

lemma run_all_insert_speaker:
  "run_all insert_speaker rows t = Inr t' \<Longrightarrow> t' = t\<lparr>speakers := speakers t @ rows\<rparr>"
proof (induction rows arbitrary: t)
  case Nil
  then show ?case by simp
next
  case (Cons r rows)
  from Cons.prems obtain t1 where t1: "insert_speaker r t = Inr t1" and rest: "run_all insert_speaker rows t1 = Inr t'"
    by (auto split: sum.splits)
  from t1 have "t1 = t\<lparr>speakers := speakers t @ [r]\<rparr>"
    by (auto simp: insert_speaker_def split: if_splits)
  with Cons.IH[OF rest] show ?case by simp
qed


lemma upsert_delete':
  "deleteRecordingData (in_id inp) (upsertRecording e inp w) =
     after_commits (w\<lparr>clock_reads := Suc (clock_reads w)\<rparr>)
       (cleared_states (input_row inp (clock e (clock_reads w))) (tables w))"
  by (simp add: upsert_delete input_row_def after_commits_def cleared_states_def Let_def)

lemma insertSegments_cases:
  "(\<exists>err. insertSegments rid segs w = (w, Inl err)) \<or>
   insertSegments rid segs w =
     (after_commits w [(tables w)\<lparr>segments := segments (tables w) @ map (segment_row_of rid) segs\<rparr>], Inr ())"
proof (cases "run_all insert_segment (map (segment_row_of rid) segs) (tables w)")
  case (Inl err)
  then show ?thesis by (simp add: insertSegments_def transaction_def)
next
  case (Inr t')
  from run_all_insert_segment[OF this] Inr show ?thesis
    by (simp add: insertSegments_def transaction_def commit_def after_commits_def)
qed

lemma insertSpeakers_cases:
  "(\<exists>err. insertSpeakers rid spks w = (w, Inl err)) \<or>
   insertSpeakers rid spks w =
     (after_commits w [(tables w)\<lparr>speakers := speakers (tables w) @ map (speaker_row_of rid) spks\<rparr>], Inr ())"
proof (cases "run_all insert_speaker (map (speaker_row_of rid) spks) (tables w)")
  case (Inl err)
  then show ?thesis by (simp add: insertSpeakers_def transaction_def)
next
  case (Inr t')
  from run_all_insert_speaker[OF this] Inr show ?thesis
    by (simp add: insertSpeakers_def transaction_def commit_def after_commits_def)
qed

lemma after_commits_append: "after_commits (after_commits w ts) us = after_commits w (ts @ us)"
  by (cases us rule: rev_cases) (simp_all add: after_commits_def)

lemma after_commits_Nil: "after_commits w [] = w"
  by (simp add: after_commits_def)


lemma cleared_states_last: "tables (after_commits w (cleared_states row t)) = last (cleared_states row t)"
  by (simp add: after_commits_def cleared_states_def Let_def)

lemma write_call_shape:
  fixes e call rid url expires segs spks w
  defines "cl \<equiv> cleared_states (input_row (call_input call rid url expires) (clock e (clock_reads w))) (tables w)"
  defines "t5 \<equiv> last cl"
  defines "t6 \<equiv> t5\<lparr>segments := segments t5 @ map (segment_row_of rid) segs\<rparr>"
  defines "t7 \<equiv> t6\<lparr>speakers := speakers t6 @ map (speaker_row_of rid) spks\<rparr>"
  defines "t8 \<equiv> t5\<lparr>speakers := speakers t5 @ map (speaker_row_of rid) spks\<rparr>"
  shows "\<exists>J res. write_call e call rid url expires segs spks w =
            (after_commits (w\<lparr>clock_reads := Suc (clock_reads w)\<rparr>) (cl @ J), res)
          \<and> (J = [] \<or> J = [t6] \<and> segs \<noteq> [] \<or> J = [t6, t7] \<and> segs \<noteq> [] \<and> spks \<noteq> [] \<or> J = [t8] \<and> segs = [] \<and> spks \<noteq> [])
          \<and> (segs = [] \<and> spks = [] \<longrightarrow> res = Inr ())
          \<and> (res = Inr () \<and> segs \<noteq> [] \<and> spks \<noteq> [] \<longrightarrow> J = [t6, t7])"
proof -
  let ?w1 = "w\<lparr>clock_reads := Suc (clock_reads w)\<rparr>"
  let ?w2 = "after_commits ?w1 cl"
  have wc: "write_call e call rid url expires segs spks w =
     (case (if length segs > 0 then insertSegments rid segs ?w2 else (?w2, Inr ())) of
           (w3, Inl err) \<Rightarrow> (w3, Inl err)
         | (w3, Inr _) \<Rightarrow>
             (if length spks > 0 then insertSpeakers rid spks w3 else (w3, Inr ())))"
    using upsert_delete'[of "call_input call rid url expires" e w]
    by (simp add: write_call_def Let_def call_input_def cl_def)
  have tw2: "tables ?w2 = t5"
    by (simp add: cl_def t5_def cleared_states_last)
  show ?thesis
  proof (cases "segs = []")
    case True
    note segs = this
    show ?thesis
    proof (cases "spks = []")
      case True
      with segs wc show ?thesis by (intro exI[of _ "[]"] exI[of _ "Inr ()"]) simp
    next
      case False
      from insertSpeakers_cases[of rid spks ?w2]
      show ?thesis
      proof
        assume "\<exists>err. insertSpeakers rid spks ?w2 = (?w2, Inl err)"
        then obtain err where "insertSpeakers rid spks ?w2 = (?w2, Inl err)" ..
        with segs False wc show ?thesis by (intro exI[of _ "[]"] exI[of _ "Inl err"]) simp
      next
        assume "insertSpeakers rid spks ?w2 =
           (after_commits ?w2 [(tables ?w2)\<lparr>speakers := speakers (tables ?w2) @ map (speaker_row_of rid) spks\<rparr>], Inr ())"
        with segs False wc show ?thesis
          by (intro exI[of _ "[t8]"] exI[of _ "Inr ()"]) (simp add: tw2 t8_def after_commits_append)
      qed
    qed
  next
    case False
    note segs = this
    from insertSegments_cases[of rid segs ?w2]
    show ?thesis
    proof
      assume "\<exists>err. insertSegments rid segs ?w2 = (?w2, Inl err)"
      then obtain err where "insertSegments rid segs ?w2 = (?w2, Inl err)" ..
      with segs wc show ?thesis by (intro exI[of _ "[]"] exI[of _ "Inl err"]) simp
    next
      assume "insertSegments rid segs ?w2 =
           (after_commits ?w2 [(tables ?w2)\<lparr>segments := segments (tables ?w2) @ map (segment_row_of rid) segs\<rparr>], Inr ())"
      then have ins: "insertSegments rid segs ?w2 = (after_commits ?w1 (cl @ [t6]), Inr ())"
        by (simp add: tw2 t6_def after_commits_append)
      let ?w3 = "after_commits ?w1 (cl @ [t6])"
      have tw3: "tables ?w3 = t6" by (simp add: after_commits_def)
      show ?thesis
      proof (cases "spks = []")
        case True
        with segs wc ins show ?thesis by (intro exI[of _ "[t6]"] exI[of _ "Inr ()"]) simp
      next
        case False
        from insertSpeakers_cases[of rid spks ?w3]
        show ?thesis
        proof
          assume "\<exists>err. insertSpeakers rid spks ?w3 = (?w3, Inl err)"
          then obtain err where "insertSpeakers rid spks ?w3 = (?w3, Inl err)" ..
          with segs False wc ins show ?thesis by (intro exI[of _ "[t6]"] exI[of _ "Inl err"]) simp
        next
          assume "insertSpeakers rid spks ?w3 =
             (after_commits ?w3 [(tables ?w3)\<lparr>speakers := speakers (tables ?w3) @ map (speaker_row_of rid) spks\<rparr>], Inr ())"
          with segs False wc ins show ?thesis
            by (intro exI[of _ "[t6, t7]"] exI[of _ "Inr ()"]) (simp add: tw3 t7_def after_commits_append)
        qed
      qed
    qed
  qed
qed


lemma cleared_states_nonempty: "cleared_states row t \<noteq> []"
  by (simp add: cleared_states_def Let_def)

lemma cleared_states_recordings:
  "t' \<in> set (cleared_states row t) \<Longrightarrow>
     recordings t' = filter (\<lambda>r. rec_id r \<noteq> rec_id row) (recordings t) @ [row]"
  by (auto simp: cleared_states_def replace_recording_def delete_children_def Let_def)

lemma cleared_states_children:
  "segments (last (cleared_states row t)) = filter (\<lambda>r. sg_recording_id r \<noteq> rec_id row) (segments t)"
  "speakers (last (cleared_states row t)) = filter (\<lambda>r. sp_recording_id r \<noteq> rec_id row) (speakers t)"
  "video_files (last (cleared_states row t)) = filter (\<lambda>r. vf_recording_id r \<noteq> rec_id row) (video_files t)"
  "chat_messages (last (cleared_states row t)) = filter (\<lambda>r. cm_recording_id r \<noteq> rec_id row) (chat_messages t)"
  by (simp_all add: cleared_states_def replace_recording_def delete_children_def Let_def)

lemma processCall_processed:
  assumes "force \<or> \<not> snd (isRecentlySynced e (recording_id c) w)" and "truthy (media_url c)"
  shows "\<exists>w0. tables w0 = tables w \<and> journal w0 = journal w \<and> sent w0 = sent w \<and> sleeps w0 = sleeps w
          \<and> (clock_reads w0 = clock_reads w \<or> clock_reads w0 = Suc (clock_reads w))
          \<and> processCall e c tm force w =
             (case write_call e (metaData c) (recording_id c) (the (media_url c))
                     (clock e (clock_reads w0) + 8 * 60 * 60 * 1000)
                     (fst (transcript_data (case parties c of Some ps \<Rightarrow> ps | None \<Rightarrow> []) (tm (call_id (metaData c)))))
                     (snd (transcript_data (case parties c of Some ps \<Rightarrow> ps | None \<Rightarrow> []) (tm (call_id (metaData c)))))
                     (w0\<lparr>clock_reads := Suc (clock_reads w0)\<rparr>) of
                (w2, Inl err) \<Rightarrow> (w2, \<lparr>synced = False, skipped = False, title = call_title (metaData c)\<rparr>)
              | (w2, Inr _) \<Rightarrow> (w2, \<lparr>synced = True, skipped = False, title = call_title (metaData c)\<rparr>))"
proof (cases force)
  case True
  with assms(2) show ?thesis
    by (intro exI[of _ w])
       (simp add: processCall_def Let_def read_clock_def MEDIA_URL_EXPIRY_HOURS_def split: prod.splits)
next
  case False
  obtain w0 b where r: "isRecentlySynced e (recording_id c) w = (w0, b)"
    by (cases "isRecentlySynced e (recording_id c) w")
  with assms(1) False have b: "\<not> b" by simp
  have fr: "tables w0 = tables w \<and> journal w0 = journal w \<and> sent w0 = sent w \<and> sleeps w0 = sleeps w"
    using isRecentlySynced_frame[of e "recording_id c" w] r by simp
  have cr: "clock_reads w0 = clock_reads w \<or> clock_reads w0 = Suc (clock_reads w)"
    using r by (auto simp: isRecentlySynced_def read_clock_def split: option.splits)
  from False assms(2) r b fr cr show ?thesis
    by (intro exI[of _ w0])
       (simp add: processCall_def Let_def read_clock_def MEDIA_URL_EXPIRY_HOURS_def split: prod.splits)
qed


lemma transcript_data_none:
  "tr = None \<or> (\<exists>t. tr = Some t \<and> transcript t = []) \<Longrightarrow> transcript_data ps tr = ([], [])"
  by (auto simp: transcript_data_def)

text \<open>
  Claim C10. A call that the freshness test does not skip, whose media URL is resolved and
  whose transcript is absent from the transcript map or has no entry, is synced: the
  recording row is replaced, every Segment, Speaker, VideoFile and ChatMessage row of the
  recording is deleted, and none is inserted, whatever parties the call has; the rows of
  the other recordings stay as they were.
\<close>

theorem processCall_without_transcript:
  assumes "force \<or> \<not> snd (isRecentlySynced e (recording_id c) w)"
    and "truthy (media_url c)"
    and "tm (call_id (metaData c)) = None \<or> (\<exists>t. tm (call_id (metaData c)) = Some t \<and> transcript t = [])"
  shows "synced (snd (processCall e c tm force w))
       \<and> segments (tables (fst (processCall e c tm force w)))
           = filter (\<lambda>r. sg_recording_id r \<noteq> recording_id c) (segments (tables w))
       \<and> speakers (tables (fst (processCall e c tm force w)))
           = filter (\<lambda>r. sp_recording_id r \<noteq> recording_id c) (speakers (tables w))
       \<and> video_files (tables (fst (processCall e c tm force w)))
           = filter (\<lambda>r. vf_recording_id r \<noteq> recording_id c) (video_files (tables w))
       \<and> chat_messages (tables (fst (processCall e c tm force w)))
           = filter (\<lambda>r. cm_recording_id r \<noteq> recording_id c) (chat_messages (tables w))
       \<and> (\<exists>row. rec_id row = recording_id c \<and> rec_video_url row = the (media_url c) \<and>
             recordings (tables (fst (processCall e c tm force w)))
               = filter (\<lambda>r. rec_id r \<noteq> recording_id c) (recordings (tables w)) @ [row])"
proof -
  let ?ps = "case parties c of Some ps \<Rightarrow> ps | None \<Rightarrow> []"
  have td: "transcript_data ?ps (tm (call_id (metaData c))) = ([], [])"
    by (rule transcript_data_none[OF assms(3)])
  obtain w0 where w0: "tables w0 = tables w"
    and p: "processCall e c tm force w =
             (case write_call e (metaData c) (recording_id c) (the (media_url c))
                     (clock e (clock_reads w0) + 8 * 60 * 60 * 1000) [] []
                     (w0\<lparr>clock_reads := Suc (clock_reads w0)\<rparr>) of
                (w2, Inl err) \<Rightarrow> (w2, \<lparr>synced = False, skipped = False, title = call_title (metaData c)\<rparr>)
              | (w2, Inr _) \<Rightarrow> (w2, \<lparr>synced = True, skipped = False, title = call_title (metaData c)\<rparr>))"
    using processCall_processed[OF assms(1,2), of tm] by (auto simp: td)
  let ?w1 = "w0\<lparr>clock_reads := Suc (clock_reads w0)\<rparr>"
  let ?row = "input_row (call_input (metaData c) (recording_id c) (the (media_url c))
                 (clock e (clock_reads w0) + 8 * 60 * 60 * 1000)) (clock e (clock_reads ?w1))"
  let ?cl = "cleared_states ?row (tables ?w1)"
  from write_call_shape[of e "metaData c" "recording_id c" "the (media_url c)"
         "clock e (clock_reads w0) + 8 * 60 * 60 * 1000" "[]" "[]" ?w1]
  have "write_call e (metaData c) (recording_id c) (the (media_url c))
          (clock e (clock_reads w0) + 8 * 60 * 60 * 1000) [] [] ?w1
        = (after_commits (?w1\<lparr>clock_reads := Suc (clock_reads ?w1)\<rparr>) ?cl, Inr ())"
    by auto
  with p have res: "processCall e c tm force w =
      (after_commits (?w1\<lparr>clock_reads := Suc (clock_reads ?w1)\<rparr>) ?cl,
       \<lparr>synced = True, skipped = False, title = call_title (metaData c)\<rparr>)"
    by simp
  have rid: "rec_id ?row = recording_id c" and url: "rec_video_url ?row = the (media_url c)"
    by (simp_all add: input_row_def call_input_def)
  have tb: "tables (fst (processCall e c tm force w)) = last ?cl"
    by (simp add: res cleared_states_last)
  have "last ?cl \<in> set ?cl" by (simp add: cleared_states_nonempty)
  from cleared_states_recordings[OF this]
  have "recordings (last ?cl) = filter (\<lambda>r. rec_id r \<noteq> recording_id c) (recordings (tables w)) @ [?row]"
    unfolding rid by (simp add: w0)
  with rid url show ?thesis
    by (simp add: tb cleared_states_children w0) (simp add: res)
qed


theorem processCall_without_transcript_witness:
  "truthy (media_url (with_party (call0 ''1'')))
   \<and> synced (snd (processCall env0 (with_party (call0 ''1'')) Map.empty True (world0\<lparr>tables := stored\<rparr>)))
   \<and> map sg_id (segments (tables (fst (processCall env0 (with_party (call0 ''1'')) Map.empty True (world0\<lparr>tables := stored\<rparr>)))))
       = [''zoom_7-seg-1'']
   \<and> map sp_id (speakers (tables (fst (processCall env0 (with_party (call0 ''1'')) Map.empty True (world0\<lparr>tables := stored\<rparr>)))))
       = [''zoom_7-bob'']
   \<and> video_files (tables (fst (processCall env0 (with_party (call0 ''1'')) Map.empty True (world0\<lparr>tables := stored\<rparr>)))) = []
   \<and> chat_messages (tables (fst (processCall env0 (with_party (call0 ''1'')) Map.empty True (world0\<lparr>tables := stored\<rparr>)))) = []"
proof -
  have m: "truthy (media_url (with_party (call0 ''1'')))"
    by (simp add: media_url_def with_party_def call0_def)
  have r: "recording_id (with_party (call0 ''1'')) = ''gong_1''"
    by (simp add: recording_id_def with_party_def call0_def)
  from processCall_without_transcript[OF _ m, of True env0 "world0\<lparr>tables := stored\<rparr>" Map.empty] m
  show ?thesis
    by (simp add: r stored_def)
qed


subsection \<open>The states a per-call step commits\<close>

lemma filter_neq_eq_Nil: "filter (\<lambda>r. f r = x) (filter (\<lambda>r. f r \<noteq> x) xs) = []"
  by (induction xs) auto

lemma cleared_whole:
  assumes "t' \<in> set (cleared_states row t)"
  shows "(segments_of (rec_id row) t' = segments_of (rec_id row) t \<or> segments_of (rec_id row) t' = [])
       \<and> (speakers_of (rec_id row) t' = speakers_of (rec_id row) t \<or> speakers_of (rec_id row) t' = [])"
  using assms
  by (auto simp: cleared_states_def replace_recording_def delete_children_def Let_def
        segments_of_def speakers_of_def filter_neq_eq_Nil)

lemma cleared_last_empty:
  "segments_of (rec_id row) (last (cleared_states row t)) = []"
  "speakers_of (rec_id row) (last (cleared_states row t)) = []"
  by (simp_all add: segments_of_def speakers_of_def cleared_states_children filter_neq_eq_Nil)

lemma segments_of_rows: "segments_of rid (t\<lparr>segments := segments t @ map (segment_row_of rid) segs\<rparr>)
   = segments_of rid t @ map (segment_row_of rid) segs"
  by (simp add: segments_of_def segment_row_of_def filter_map comp_def)

lemma speakers_of_rows: "speakers_of rid (t\<lparr>speakers := speakers t @ map (speaker_row_of rid) spks\<rparr>)
   = speakers_of rid t @ map (speaker_row_of rid) spks"
  by (simp add: speakers_of_def speaker_row_of_def filter_map comp_def)

lemma extractSpeakers_nonempty: "segs \<noteq> [] \<Longrightarrow> extractSpeakers segs \<noteq> []"
proof -
  assume "segs \<noteq> []"
  then have "set (map spk_name (extractSpeakers segs)) \<noteq> {}"
    by (simp add: extractSpeakers_def map_speakers_names unique_in_order_firsts set_firsts del: set_map)
  then show ?thesis by auto
qed

lemma transcript_data_speakers:
  "fst (transcript_data ps tr) \<noteq> [] \<Longrightarrow> snd (transcript_data ps tr) \<noteq> []"
  by (auto simp: transcript_data_def Let_def extractSpeakers_nonempty split: option.splits if_splits)

lemma transcript_data_segments:
  "fst (transcript_data ps tr) = [] \<Longrightarrow> snd (transcript_data ps tr) = []"
  by (auto simp: transcript_data_def Let_def extractSpeakers_def unique_in_order_def split: option.splits if_splits)


lemma processCall_unprocessed:
  assumes "\<not> (force \<or> \<not> snd (isRecentlySynced e (recording_id c) w)) \<or> \<not> truthy (media_url c)"
  shows "journal (fst (processCall e c tm force w)) = journal w \<and> tables (fst (processCall e c tm force w)) = tables w
         \<and> \<not> synced (snd (processCall e c tm force w))"
  using assms isRecentlySynced_frame[of e "recording_id c" w]
  by (cases "isRecentlySynced e (recording_id c) w") (auto simp: processCall_def Let_def)

lemma processCall_processed_commits:
  assumes "force \<or> \<not> snd (isRecentlySynced e (recording_id c) w)" and "truthy (media_url c)"
  shows "\<exists>row J. rec_id row = recording_id c \<and> (\<exists>k. rec_synced_at row = clock e k)
          \<and> journal (fst (processCall e c tm force w)) = journal w @ cleared_states row (tables w) @ J
          \<and> tables (fst (processCall e c tm force w)) = last (cleared_states row (tables w) @ J)
          \<and> (J = []
              \<or> J = [(last (cleared_states row (tables w)))
                       \<lparr>segments := segments (last (cleared_states row (tables w))) @ new_segment_rows c tm\<rparr>]
              \<or> J = [(last (cleared_states row (tables w)))
                       \<lparr>segments := segments (last (cleared_states row (tables w))) @ new_segment_rows c tm\<rparr>,
                     (last (cleared_states row (tables w)))
                       \<lparr>segments := segments (last (cleared_states row (tables w))) @ new_segment_rows c tm,
                          speakers := speakers (last (cleared_states row (tables w))) @ new_speaker_rows c tm\<rparr>])
          \<and> (synced (snd (processCall e c tm force w)) \<and> new_segment_rows c tm \<noteq> [] \<longrightarrow> length J = 2)"
proof -
  let ?segs = "fst (transcript_data (call_parties c) (tm (call_id (metaData c))))"
  let ?spks = "snd (transcript_data (call_parties c) (tm (call_id (metaData c))))"
  obtain w0 where w0: "tables w0 = tables w" "journal w0 = journal w"
    and p: "processCall e c tm force w =
             (case write_call e (metaData c) (recording_id c) (the (media_url c))
                     (clock e (clock_reads w0) + 8 * 60 * 60 * 1000) ?segs ?spks
                     (w0\<lparr>clock_reads := Suc (clock_reads w0)\<rparr>) of
                (w2, Inl err) \<Rightarrow> (w2, \<lparr>synced = False, skipped = False, title = call_title (metaData c)\<rparr>)
              | (w2, Inr _) \<Rightarrow> (w2, \<lparr>synced = True, skipped = False, title = call_title (metaData c)\<rparr>))"
    using processCall_processed[OF assms, of tm] by (auto simp: call_parties_def)
  define ex where "ex = clock e (clock_reads w0) + 8 * 60 * 60 * 1000"
  note p = p[folded ex_def]
  let ?w1 = "w0\<lparr>clock_reads := Suc (clock_reads w0)\<rparr>"
  let ?row = "input_row (call_input (metaData c) (recording_id c) (the (media_url c)) ex)
                 (clock e (clock_reads ?w1))"
  let ?cl = "cleared_states ?row (tables w)"
  let ?t5 = "last ?cl"
  let ?t6 = "?t5\<lparr>segments := segments ?t5 @ map (segment_row_of (recording_id c)) ?segs\<rparr>"
  let ?t7 = "?t6\<lparr>speakers := speakers ?t6 @ map (speaker_row_of (recording_id c)) ?spks\<rparr>"
  let ?t8 = "?t5\<lparr>speakers := speakers ?t5 @ map (speaker_row_of (recording_id c)) ?spks\<rparr>"
  from write_call_shape[of e "metaData c" "recording_id c" "the (media_url c)" ex ?segs ?spks ?w1]
  obtain J res where
    wc: "write_call e (metaData c) (recording_id c) (the (media_url c)) ex ?segs ?spks ?w1
         = (after_commits (?w1\<lparr>clock_reads := Suc (clock_reads ?w1)\<rparr>) (?cl @ J), res)"
    and J: "J = [] \<or> J = [?t6] \<and> ?segs \<noteq> [] \<or> J = [?t6, ?t7] \<and> ?segs \<noteq> [] \<and> ?spks \<noteq> [] \<or> J = [?t8] \<and> ?segs = [] \<and> ?spks \<noteq> []"
    and ok: "res = Inr () \<and> ?segs \<noteq> [] \<and> ?spks \<noteq> [] \<longrightarrow> J = [?t6, ?t7]"
    by (auto simp: w0)
  have J8: "\<not> (?segs = [] \<and> ?spks \<noteq> [])"
    using transcript_data_segments by blast
  have rid: "rec_id ?row = recording_id c" by (simp add: input_row_def call_input_def)
  have sy: "synced (snd (processCall e c tm force w)) \<longleftrightarrow> res = Inr ()"
    by (cases res) (simp_all add: p wc)
  have j: "journal (fst (processCall e c tm force w)) = journal w @ ?cl @ J"
    and t: "tables (fst (processCall e c tm force w)) = last (?cl @ J)"
    by (cases res; simp add: p wc after_commits_def w0 cleared_states_nonempty)+
  have sp: "?segs \<noteq> [] \<Longrightarrow> ?spks \<noteq> []" by (rule transcript_data_speakers)
  have sa: "\<exists>k. rec_synced_at ?row = clock e k" by (auto simp: input_row_def)
  show ?thesis
  proof (intro exI[of _ ?row] exI[of _ J] conjI rid sa j t)
    show "J = [] \<or> J = [?t5\<lparr>segments := segments ?t5 @ new_segment_rows c tm\<rparr>]
        \<or> J = [?t5\<lparr>segments := segments ?t5 @ new_segment_rows c tm\<rparr>,
               ?t5\<lparr>segments := segments ?t5 @ new_segment_rows c tm,
                    speakers := speakers ?t5 @ new_speaker_rows c tm\<rparr>]"
      using J J8 ok sy sp by (auto simp: new_segment_rows_def new_speaker_rows_def)
    show "synced (snd (processCall e c tm force w)) \<and> new_segment_rows c tm \<noteq> [] \<longrightarrow> length J = 2"
      using ok sy sp by (auto simp: new_segment_rows_def)
  qed
qed


lemma inserted_states:
  fixes c tm row t
  defines "t5 \<equiv> last (cleared_states row t)"
  defines "t6 \<equiv> t5\<lparr>segments := segments t5 @ new_segment_rows c tm\<rparr>"
  defines "t7 \<equiv> t5\<lparr>segments := segments t5 @ new_segment_rows c tm, speakers := speakers t5 @ new_speaker_rows c tm\<rparr>"
  assumes "rec_id row = recording_id c"
  shows "segments_of (recording_id c) t6 = new_segment_rows c tm"
    and "speakers_of (recording_id c) t6 = []"
    and "segments_of (recording_id c) t7 = new_segment_rows c tm"
    and "speakers_of (recording_id c) t7 = new_speaker_rows c tm"
proof -
  have e: "segments_of (recording_id c) t5 = []" "speakers_of (recording_id c) t5 = []"
    using cleared_last_empty[of row t] assms(4) by (simp_all add: t5_def)
  have s6: "segments_of (recording_id c) t6 = segments_of (recording_id c) t5 @ new_segment_rows c tm"
    unfolding t6_def new_segment_rows_def by (rule segments_of_rows)
  have k7: "speakers_of (recording_id c) (t6\<lparr>speakers := speakers t6 @ new_speaker_rows c tm\<rparr>)
              = speakers_of (recording_id c) t6 @ new_speaker_rows c tm"
    unfolding new_speaker_rows_def by (rule speakers_of_rows)
  have t7: "t7 = t6\<lparr>speakers := speakers t6 @ new_speaker_rows c tm\<rparr>"
    by (simp add: t7_def t6_def)
  have k6: "speakers_of (recording_id c) t6 = speakers_of (recording_id c) t5"
    by (simp add: speakers_of_def t6_def)
  have s7: "segments_of (recording_id c) t7 = segments_of (recording_id c) t6"
    by (simp add: segments_of_def t7)
  show "segments_of (recording_id c) t6 = new_segment_rows c tm" using s6 e by simp
  show "speakers_of (recording_id c) t6 = []" using k6 e by simp
  show "segments_of (recording_id c) t7 = new_segment_rows c tm" using s7 s6 e by simp
  show "speakers_of (recording_id c) t7 = new_speaker_rows c tm" using k7 k6 e by (simp add: t7)
qed

lemma new_speaker_rows_nonempty: "new_segment_rows c tm \<noteq> [] \<Longrightarrow> new_speaker_rows c tm \<noteq> []"
  using transcript_data_speakers[of "call_parties c" "tm (call_id (metaData c))"]
  by (simp add: new_segment_rows_def new_speaker_rows_def)

text \<open>
  Claim C1, as the code has it. Each of the two bulk inserts is one transaction, and the
  two are not one: in every state that a per-call step commits, the Segment rows of the
  recording are the rows it had before, none, or all the new rows, and likewise for the
  Speaker rows, so no state holds a part of either insert; but when a call with a
  transcript is synced, the last two states committed are the one after the Segment
  insert, which holds all the new Segment rows and no Speaker row of the recording, and
  the final one, which holds both.
\<close>

theorem inserts_atomic_each_not_as_pair:
  "(\<forall>t \<in> set (new_commits w (fst (processCall e c tm force w))).
       (segments_of (recording_id c) t = segments_of (recording_id c) (tables w)
        \<or> segments_of (recording_id c) t = []
        \<or> segments_of (recording_id c) t = new_segment_rows c tm)
     \<and> (speakers_of (recording_id c) t = speakers_of (recording_id c) (tables w)
        \<or> speakers_of (recording_id c) t = []
        \<or> speakers_of (recording_id c) t = new_speaker_rows c tm))
   \<and> (synced (snd (processCall e c tm force w)) \<and> new_segment_rows c tm \<noteq> [] \<longrightarrow>
        (\<exists>pre t6 t7. new_commits w (fst (processCall e c tm force w)) = pre @ [t6, t7]
           \<and> tables (fst (processCall e c tm force w)) = t7
           \<and> segments_of (recording_id c) t6 = new_segment_rows c tm
           \<and> speakers_of (recording_id c) t6 = []
           \<and> segments_of (recording_id c) t7 = new_segment_rows c tm
           \<and> speakers_of (recording_id c) t7 = new_speaker_rows c tm
           \<and> new_speaker_rows c tm \<noteq> []))"
proof (cases "(force \<or> \<not> snd (isRecentlySynced e (recording_id c) w)) \<and> truthy (media_url c)")
  case False
  then have "\<not> (force \<or> \<not> snd (isRecentlySynced e (recording_id c) w)) \<or> \<not> truthy (media_url c)"
    by blast
  from processCall_unprocessed[OF this, of tm] show ?thesis
    by (simp add: new_commits_def)
next
  case True
  then have pr: "force \<or> \<not> snd (isRecentlySynced e (recording_id c) w)" and mu: "truthy (media_url c)"
    by blast+
  let ?P = "processCall e c tm force w"
  from processCall_processed_commits[OF pr mu, of tm]
  obtain row J where rid: "rec_id row = recording_id c"
    and j: "journal (fst ?P) = journal w @ cleared_states row (tables w) @ J"
    and t: "tables (fst ?P) = last (cleared_states row (tables w) @ J)"
    and J: "J = []
              \<or> J = [(last (cleared_states row (tables w)))
                       \<lparr>segments := segments (last (cleared_states row (tables w))) @ new_segment_rows c tm\<rparr>]
              \<or> J = [(last (cleared_states row (tables w)))
                       \<lparr>segments := segments (last (cleared_states row (tables w))) @ new_segment_rows c tm\<rparr>,
                     (last (cleared_states row (tables w)))
                       \<lparr>segments := segments (last (cleared_states row (tables w))) @ new_segment_rows c tm,
                          speakers := speakers (last (cleared_states row (tables w))) @ new_speaker_rows c tm\<rparr>]"
    and two: "synced (snd ?P) \<and> new_segment_rows c tm \<noteq> [] \<longrightarrow> length J = 2"
    by blast
  let ?cl = "cleared_states row (tables w)"
  let ?t6 = "(last ?cl)\<lparr>segments := segments (last ?cl) @ new_segment_rows c tm\<rparr>"
  let ?t7 = "(last ?cl)\<lparr>segments := segments (last ?cl) @ new_segment_rows c tm,
                        speakers := speakers (last ?cl) @ new_speaker_rows c tm\<rparr>"
  note ins = inserted_states[OF rid, of "tables w" tm]
  have nc: "new_commits w (fst ?P) = ?cl @ J" by (simp add: new_commits_def j)
  have inJ: "t \<in> set J \<Longrightarrow> t = ?t6 \<or> t = ?t7" for t using J by auto
  have all: "(segments_of (recording_id c) t = segments_of (recording_id c) (tables w)
        \<or> segments_of (recording_id c) t = []
        \<or> segments_of (recording_id c) t = new_segment_rows c tm)
     \<and> (speakers_of (recording_id c) t = speakers_of (recording_id c) (tables w)
        \<or> speakers_of (recording_id c) t = []
        \<or> speakers_of (recording_id c) t = new_speaker_rows c tm)"
    if "t \<in> set (new_commits w (fst ?P))" for t
  proof -
    from that consider "t \<in> set ?cl" | "t = ?t6" | "t = ?t7" using nc inJ by auto
    then show ?thesis
    proof cases
      case 1
      from cleared_whole[OF this] show ?thesis by (auto simp: rid)
    next
      case 2
      with ins(1,2) show ?thesis by simp
    next
      case 3
      with ins(3,4) show ?thesis by simp
    qed
  qed
  have pair: "\<exists>pre t6 t7. new_commits w (fst ?P) = pre @ [t6, t7]
           \<and> tables (fst ?P) = t7
           \<and> segments_of (recording_id c) t6 = new_segment_rows c tm
           \<and> speakers_of (recording_id c) t6 = []
           \<and> segments_of (recording_id c) t7 = new_segment_rows c tm
           \<and> speakers_of (recording_id c) t7 = new_speaker_rows c tm
           \<and> new_speaker_rows c tm \<noteq> []"
    if a: "synced (snd ?P) \<and> new_segment_rows c tm \<noteq> []"
  proof -
    from a two J have Jeq: "J = [?t6, ?t7]" by auto
    have "new_commits w (fst ?P) = ?cl @ [?t6, ?t7]" by (simp add: nc Jeq)
    moreover have "tables (fst ?P) = ?t7" by (simp add: t Jeq)
    ultimately show ?thesis
      using ins new_speaker_rows_nonempty[of c tm] a by blast
  qed
  from all pair show ?thesis by blast
qed

theorem inserts_atomic_each_not_as_pair_witness:
  "\<exists>pre t6 t7.
      new_commits world0 (fst (processCall env0 (call0 ''1'') [''1'' \<mapsto> transcript0 ''1''] False world0))
        = pre @ [t6, t7]
      \<and> tables (fst (processCall env0 (call0 ''1'') [''1'' \<mapsto> transcript0 ''1''] False world0)) = t7
      \<and> segments_of (recording_id (call0 ''1'')) t6 = new_segment_rows (call0 ''1'') [''1'' \<mapsto> transcript0 ''1'']
      \<and> speakers_of (recording_id (call0 ''1'')) t6 = []
      \<and> segments_of (recording_id (call0 ''1'')) t7 = new_segment_rows (call0 ''1'') [''1'' \<mapsto> transcript0 ''1'']
      \<and> speakers_of (recording_id (call0 ''1'')) t7 = new_speaker_rows (call0 ''1'') [''1'' \<mapsto> transcript0 ''1'']
      \<and> new_speaker_rows (call0 ''1'') [''1'' \<mapsto> transcript0 ''1''] \<noteq> []"
proof -
  have a: "synced (snd (processCall env0 (call0 ''1'') [''1'' \<mapsto> transcript0 ''1''] False world0))
           \<and> new_segment_rows (call0 ''1'') [''1'' \<mapsto> transcript0 ''1''] \<noteq> []"
    by code_simp
  show ?thesis
    by (rule inserts_atomic_each_not_as_pair[THEN conjunct2, rule_format, OF a])
qed

text \<open>
  The claim as the specification states it fails: for a call with a transcript of two
  sentences, the sixth state the step commits holds the two new Segment rows and no
  Speaker row; the Speaker row comes with the seventh.
\<close>

theorem segments_committed_before_speakers:
  "map sg_id (segments (journal (fst (processCall env0 (call0 ''1'') [''1'' \<mapsto> transcript0 ''1''] False world0)) ! 5))
     = [''gong_1-seg-2'', ''gong_1-seg-1'']
   \<and> speakers (journal (fst (processCall env0 (call0 ''1'') [''1'' \<mapsto> transcript0 ''1''] False world0)) ! 5) = []
   \<and> map sp_id (speakers (journal (fst (processCall env0 (call0 ''1'') [''1'' \<mapsto> transcript0 ''1''] False world0)) ! 6))
     = [''gong_1-speaker'']"
  by code_simp


subsection \<open>The freshness test and two runs in succession\<close>

lemma processCall_processed_not_skipped:
  assumes "force \<or> \<not> snd (isRecentlySynced e (recording_id c) w)" and "truthy (media_url c)"
  shows "\<not> skipped (snd (processCall e c tm force w))"
proof -
  from processCall_processed[OF assms, of tm]
  obtain w0 where p: "processCall e c tm force w =
             (case write_call e (metaData c) (recording_id c) (the (media_url c))
                     (clock e (clock_reads w0) + 8 * 60 * 60 * 1000)
                     (fst (transcript_data (case parties c of Some ps \<Rightarrow> ps | None \<Rightarrow> []) (tm (call_id (metaData c)))))
                     (snd (transcript_data (case parties c of Some ps \<Rightarrow> ps | None \<Rightarrow> []) (tm (call_id (metaData c)))))
                     (w0\<lparr>clock_reads := Suc (clock_reads w0)\<rparr>) of
                (w2, Inl err) \<Rightarrow> (w2, \<lparr>synced = False, skipped = False, title = call_title (metaData c)\<rparr>)
              | (w2, Inr _) \<Rightarrow> (w2, \<lparr>synced = True, skipped = False, title = call_title (metaData c)\<rparr>))"
    by blast
  show ?thesis
    unfolding p by (simp split: prod.splits sum.splits)
qed

lemma processCall_skipped_iff:
  "skipped (snd (processCall e c tm force w)) \<longleftrightarrow>
     \<not> force \<and> (\<exists>row. find (\<lambda>r. rec_id r = recording_id c) (recordings (tables w)) = Some row
                      \<and> clock e (clock_reads w) - 60 * 60 * 1000 < rec_synced_at row)"
proof (cases "(force \<or> \<not> snd (isRecentlySynced e (recording_id c) w)) \<and> truthy (media_url c)")
  case True
  then have pr: "force \<or> \<not> snd (isRecentlySynced e (recording_id c) w)" and mu: "truthy (media_url c)"
    by blast+
  have "\<not> skipped (snd (processCall e c tm force w))"
    by (rule processCall_processed_not_skipped[OF pr mu])
  moreover from pr have "force \<or> \<not> (\<exists>row. find (\<lambda>r. rec_id r = recording_id c) (recordings (tables w)) = Some row
                      \<and> clock e (clock_reads w) - 60 * 60 * 1000 < rec_synced_at row)"
    by (auto simp: isRecentlySynced_def read_clock_def split: option.splits)
  ultimately show ?thesis by blast
next
  case False
  then show ?thesis
    by (cases "isRecentlySynced e (recording_id c) w")
       (auto simp: processCall_def Let_def isRecentlySynced_def read_clock_def split: option.splits)
qed

lemma processCall_skipped_frame:
  assumes "skipped (snd (processCall e c tm force w))"
  shows "tables (fst (processCall e c tm force w)) = tables w
       \<and> journal (fst (processCall e c tm force w)) = journal w
       \<and> sent (fst (processCall e c tm force w)) = sent w
       \<and> \<not> synced (snd (processCall e c tm force w))"
proof (cases "(force \<or> \<not> snd (isRecentlySynced e (recording_id c) w)) \<and> truthy (media_url c)")
  case True
  then have pr: "force \<or> \<not> snd (isRecentlySynced e (recording_id c) w)" and mu: "truthy (media_url c)"
    by blast+
  from processCall_processed_not_skipped[OF pr mu, of tm] assms
  show ?thesis by simp
next
  case False
  then have "\<not> (force \<or> \<not> snd (isRecentlySynced e (recording_id c) w)) \<or> \<not> truthy (media_url c)"
    by blast
  from processCall_unprocessed[OF this, of tm] isRecentlySynced_frame[of e "recording_id c" w] False
  show ?thesis
    by (cases "isRecentlySynced e (recording_id c) w") (auto simp: processCall_def Let_def)
qed

lemma find_filter_other:
  "(\<And>x. P x \<Longrightarrow> Q x) \<Longrightarrow> \<not> P y \<Longrightarrow> find P (filter Q xs @ [y]) = find P xs"
  by (induction xs) auto

lemma find_filter_same:
  "(\<And>x. P x \<Longrightarrow> \<not> Q x) \<Longrightarrow> P y \<Longrightarrow> find P (filter Q xs @ [y]) = Some y"
  by (induction xs) auto

lemma synced_since_replace:
  assumes "recordings t' = filter (\<lambda>r. rec_id r \<noteq> rec_id row) (recordings t) @ [row]"
  shows "synced_since T rid t' \<longleftrightarrow> (if rid = rec_id row then T \<le> rec_synced_at row else synced_since T rid t)"
proof (cases "rid = rec_id row")
  case True
  have "find (\<lambda>r. rec_id r = rid) (filter (\<lambda>r. rec_id r \<noteq> rec_id row) (recordings t) @ [row]) = Some row"
    by (rule find_filter_same) (simp_all add: True)
  with True show ?thesis by (simp add: synced_since_def assms)
next
  case False
  have "find (\<lambda>r. rec_id r = rid) (filter (\<lambda>r. rec_id r \<noteq> rec_id row) (recordings t) @ [row])
          = find (\<lambda>r. rec_id r = rid) (recordings t)"
    by (rule find_filter_other) (use False in auto)
  with False show ?thesis by (simp add: synced_since_def assms)
qed

lemma processed_recordings:
  assumes "force \<or> \<not> snd (isRecentlySynced e (recording_id c) w)" and "truthy (media_url c)"
  shows "\<exists>row k. rec_id row = recording_id c \<and> rec_synced_at row = clock e k
          \<and> recordings (tables (fst (processCall e c tm force w)))
               = filter (\<lambda>r. rec_id r \<noteq> rec_id row) (recordings (tables w)) @ [row]"
proof -
  from processCall_processed_commits[OF assms, of tm]
  obtain row J k where rid: "rec_id row = recording_id c" and k: "rec_synced_at row = clock e k"
    and t: "tables (fst (processCall e c tm force w)) = last (cleared_states row (tables w) @ J)"
    and J: "J = []
              \<or> J = [(last (cleared_states row (tables w)))
                       \<lparr>segments := segments (last (cleared_states row (tables w))) @ new_segment_rows c tm\<rparr>]
              \<or> J = [(last (cleared_states row (tables w)))
                       \<lparr>segments := segments (last (cleared_states row (tables w))) @ new_segment_rows c tm\<rparr>,
                     (last (cleared_states row (tables w)))
                       \<lparr>segments := segments (last (cleared_states row (tables w))) @ new_segment_rows c tm,
                          speakers := speakers (last (cleared_states row (tables w))) @ new_speaker_rows c tm\<rparr>]"
    by blast
  have "last (cleared_states row (tables w)) \<in> set (cleared_states row (tables w))"
    by (simp add: cleared_states_nonempty)
  from cleared_states_recordings[OF this]
  have l: "recordings (last (cleared_states row (tables w)))
             = filter (\<lambda>r. rec_id r \<noteq> rec_id row) (recordings (tables w)) @ [row]" .
  from J have "recordings (last (cleared_states row (tables w) @ J))
                 = recordings (last (cleared_states row (tables w)))"
    by (auto simp: cleared_states_nonempty)
  with l t rid k show ?thesis by auto
qed


lemma synced_since_fresh:
  assumes "\<forall>k. clock e k < T + 60 * 60 * 1000" and "synced_since T (recording_id c) (tables w)"
  shows "skipped (snd (processCall e c tm False w))"
proof -
  from assms(2) obtain row where f: "find (\<lambda>r. rec_id r = recording_id c) (recordings (tables w)) = Some row"
    and T: "T \<le> rec_synced_at row"
    by (auto simp: synced_since_def split: option.splits)
  from assms(1) have "clock e (clock_reads w) < T + 60 * 60 * 1000" by blast
  with T have "clock e (clock_reads w) - 60 * 60 * 1000 < rec_synced_at row" by simp
  with f show ?thesis by (simp add: processCall_skipped_iff)
qed

lemma synced_since_kept:
  assumes "(\<forall>k. T \<le> clock e k) \<or> (\<not> force \<and> (\<forall>k. clock e k < T + 60 * 60 * 1000))"
    and "synced_since T rid (tables w)"
  shows "synced_since T rid (tables (fst (processCall e c tm force w)))"
proof (cases "(force \<or> \<not> snd (isRecentlySynced e (recording_id c) w)) \<and> truthy (media_url c)")
  case False
  then have "\<not> (force \<or> \<not> snd (isRecentlySynced e (recording_id c) w)) \<or> \<not> truthy (media_url c)"
    by blast
  from processCall_unprocessed[OF this, of tm] assms(2) show ?thesis by simp
next
  case True
  then have pr: "force \<or> \<not> snd (isRecentlySynced e (recording_id c) w)" and mu: "truthy (media_url c)"
    by blast+
  from processed_recordings[OF pr mu, of tm]
  obtain row k where rid: "rec_id row = recording_id c" and k: "rec_synced_at row = clock e k"
    and r: "recordings (tables (fst (processCall e c tm force w)))
               = filter (\<lambda>r. rec_id r \<noteq> rec_id row) (recordings (tables w)) @ [row]"
    by blast
  show ?thesis
  proof (cases "rid = recording_id c")
    case False
    with assms(2) show ?thesis by (simp add: synced_since_replace[OF r] rid)
  next
    case same: True
    from assms(1) show ?thesis
    proof
      assume "\<forall>k. T \<le> clock e k"
      then show ?thesis by (simp add: synced_since_replace[OF r] rid k same)
    next
      assume a: "\<not> force \<and> (\<forall>k. clock e k < T + 60 * 60 * 1000)"
      then have "skipped (snd (processCall e c tm False w))"
        using synced_since_fresh[of e T c w tm] assms(2) same by simp
      with a processCall_processed_not_skipped[OF pr mu, of tm] show ?thesis by simp
    qed
  qed
qed

lemma synced_since_written:
  assumes "\<forall>k. T \<le> clock e k" and "synced (snd (processCall e c tm force w))"
  shows "synced_since T (recording_id c) (tables (fst (processCall e c tm force w)))"
proof (cases "(force \<or> \<not> snd (isRecentlySynced e (recording_id c) w)) \<and> truthy (media_url c)")
  case False
  then have "\<not> (force \<or> \<not> snd (isRecentlySynced e (recording_id c) w)) \<or> \<not> truthy (media_url c)"
    by blast
  from processCall_unprocessed[OF this, of tm] assms(2) show ?thesis by simp
next
  case True
  then have pr: "force \<or> \<not> snd (isRecentlySynced e (recording_id c) w)" and mu: "truthy (media_url c)"
    by blast+
  from processed_recordings[OF pr mu, of tm]
  obtain row k where rid: "rec_id row = recording_id c" and k: "rec_synced_at row = clock e k"
    and r: "recordings (tables (fst (processCall e c tm force w)))
               = filter (\<lambda>r. rec_id r \<noteq> rec_id row) (recordings (tables w)) @ [row]"
    by blast
  from assms(1) show ?thesis by (simp add: synced_since_replace[OF r] rid k)
qed

lemma first_run:
  assumes "\<forall>k. T \<le> clock e k"
  shows "process_calls e cs tm force w = (w', rs) \<Longrightarrow>
     length rs = length cs
     \<and> (\<forall>rid. synced_since T rid (tables w) \<longrightarrow> synced_since T rid (tables w'))
     \<and> (\<forall>i < length cs. synced (rs ! i) \<longrightarrow> synced_since T (recording_id (cs ! i)) (tables w'))"
proof (induction cs arbitrary: w w' rs)
  case Nil
  then show ?case by simp
next
  case (Cons c cs)
  obtain w1 r where p: "processCall e c tm force w = (w1, r)" by (cases "processCall e c tm force w")
  obtain w2 rs' where q: "process_calls e cs tm force w1 = (w2, rs')" by (cases "process_calls e cs tm force w1")
  from Cons.prems p q have eq: "w' = w2" "rs = r # rs'" by simp_all
  note ih = Cons.IH[OF q]
  have keep1: "synced_since T rid (tables w) \<Longrightarrow> synced_since T rid (tables w1)" for rid
    using synced_since_kept[of T e force rid w c tm] assms p by simp
  have head: "synced r \<Longrightarrow> synced_since T (recording_id c) (tables w1)"
    using synced_since_written[OF assms, of c tm force w] p by simp
  show ?case
  proof (intro conjI allI impI)
    show "length rs = length (c # cs)" using ih eq by simp
  next
    fix rid assume "synced_since T rid (tables w)"
    then show "synced_since T rid (tables w')" using keep1 ih eq by blast
  next
    fix i assume i: "i < length (c # cs)" and s: "synced (rs ! i)"
    show "synced_since T (recording_id ((c # cs) ! i)) (tables w')"
    proof (cases i)
      case 0
      with s eq head ih show ?thesis by simp
    next
      case (Suc j)
      with i s eq ih show ?thesis by simp
    qed
  qed
qed

lemma second_run:
  assumes "\<forall>k. clock e k < T + 60 * 60 * 1000"
  shows "process_calls e cs tm False w = (w', rs) \<Longrightarrow>
     length rs = length cs
     \<and> (\<forall>rid. synced_since T rid (tables w) \<longrightarrow> synced_since T rid (tables w'))
     \<and> (\<forall>j < length cs. synced_since T (recording_id (cs ! j)) (tables w) \<longrightarrow>
           skipped (rs ! j) \<and> \<not> synced (rs ! j))
     \<and> ((\<forall>c \<in> set cs. synced_since T (recording_id c) (tables w)) \<longrightarrow>
           tables w' = tables w \<and> journal w' = journal w \<and> sent w' = sent w)"
proof (induction cs arbitrary: w w' rs)
  case Nil
  then show ?case by simp
next
  case (Cons c cs)
  obtain w1 r where p: "processCall e c tm False w = (w1, r)" by (cases "processCall e c tm False w")
  obtain w2 rs' where q: "process_calls e cs tm False w1 = (w2, rs')" by (cases "process_calls e cs tm False w1")
  from Cons.prems p q have eq: "w' = w2" "rs = r # rs'" by simp_all
  note ih = Cons.IH[OF q]
  have keep1: "synced_since T rid (tables w) \<Longrightarrow> synced_since T rid (tables w1)" for rid
    using synced_since_kept[of T e False rid w c tm] assms p by simp
  have head: "synced_since T (recording_id c) (tables w) \<Longrightarrow>
      skipped r \<and> \<not> synced r \<and> tables w1 = tables w \<and> journal w1 = journal w \<and> sent w1 = sent w"
    using synced_since_fresh[OF assms, of c w tm] processCall_skipped_frame[of e c tm False w] p by simp
  show ?case
  proof (intro conjI allI impI)
    show "length rs = length (c # cs)" using ih eq by simp
  next
    fix rid assume "synced_since T rid (tables w)"
    then show "synced_since T rid (tables w')" using keep1 ih eq by blast
  next
    fix j assume j: "j < length (c # cs)" and s: "synced_since T (recording_id ((c # cs) ! j)) (tables w)"
    show "skipped (rs ! j)" "\<not> synced (rs ! j)"
    proof -
      show "skipped (rs ! j)"
      proof (cases j)
        case 0
        with s eq head show ?thesis by simp
      next
        case (Suc i)
        with j s eq ih keep1 show ?thesis by simp
      qed
      show "\<not> synced (rs ! j)"
      proof (cases j)
        case 0
        with s eq head show ?thesis by simp
      next
        case (Suc i)
        with j s eq ih keep1 show ?thesis by simp
      qed
    qed
  next
    assume a: "\<forall>c \<in> set (c # cs). synced_since T (recording_id c) (tables w)"
    then have h: "tables w1 = tables w \<and> journal w1 = journal w \<and> sent w1 = sent w" using head by simp
    from a h have "\<forall>c \<in> set cs. synced_since T (recording_id c) (tables w1)" by simp
    with ih eq h show "tables w' = tables w" "journal w' = journal w" "sent w' = sent w" by simp_all
  qed
qed


lemma summarise_all_skipped:
  assumes "\<forall>j < length rs. skipped (rs ! j) \<and> \<not> synced (rs ! j)"
  shows "summarise rs = \<lparr>n_synced = 0, n_skipped = length rs, n_failed = 0\<rparr>"
proof -
  from assms have a: "\<forall>r \<in> set rs. skipped r \<and> \<not> synced r"
    by (auto simp: in_set_conv_nth)
  then have "filter synced rs = []" "filter skipped rs = rs" "filter (\<lambda>r. \<not> synced r \<and> \<not> skipped r) rs = []"
    by (auto simp: filter_empty_conv filter_id_conv)
  then show ?thesis by (simp add: summarise_def)
qed

lemma two_runs:
  assumes c1: "\<forall>k. T \<le> clock e1 k" and r1: "process_calls e1 cs1 tm1 force1 w0 = (w1, rs1)"
    and tb: "tables w2 = tables w1"
    and c2: "\<forall>k. clock e2 k < T + 60 * 60 * 1000" and r2: "process_calls e2 cs2 tm2 False w2 = (w3, rs2)"
  shows "(\<forall>j < length cs2.
            (\<exists>i < length cs1. recording_id (cs1 ! i) = recording_id (cs2 ! j) \<and> synced (rs1 ! i)) \<longrightarrow>
            skipped (rs2 ! j) \<and> \<not> synced (rs2 ! j))
       \<and> ((\<forall>c \<in> set cs2. \<exists>i < length cs1. recording_id (cs1 ! i) = recording_id c \<and> synced (rs1 ! i)) \<longrightarrow>
            tables w3 = tables w2 \<and> journal w3 = journal w2
            \<and> summarise rs2 = \<lparr>n_synced = 0, n_skipped = length cs2, n_failed = 0\<rparr>)"
proof -
  note f = first_run[OF c1 r1]
  note s = second_run[OF c2 r2]
  have known: "synced_since T (recording_id c) (tables w2)"
    if "\<exists>i < length cs1. recording_id (cs1 ! i) = recording_id c \<and> synced (rs1 ! i)" for c
    using that f tb by auto
  have one: "skipped (rs2 ! j) \<and> \<not> synced (rs2 ! j)"
    if "j < length cs2" "\<exists>i < length cs1. recording_id (cs1 ! i) = recording_id (cs2 ! j) \<and> synced (rs1 ! i)" for j
    using s that known by blast
  have all: "tables w3 = tables w2 \<and> journal w3 = journal w2
            \<and> summarise rs2 = \<lparr>n_synced = 0, n_skipped = length cs2, n_failed = 0\<rparr>"
    if a: "\<forall>c \<in> set cs2. \<exists>i < length cs1. recording_id (cs1 ! i) = recording_id c \<and> synced (rs1 ! i)"
  proof -
    from a known have k: "\<forall>c \<in> set cs2. synced_since T (recording_id c) (tables w2)" by blast
    with s have fr: "tables w3 = tables w2 \<and> journal w3 = journal w2" by blast
    from k s have "\<forall>j < length rs2. skipped (rs2 ! j) \<and> \<not> synced (rs2 ! j)" by simp
    from summarise_all_skipped[OF this] s fr show ?thesis by simp
  qed
  from one all show ?thesis by blast
qed

lemma all_synced:
  assumes "n_synced (summarise rs) = length rs"
  shows "\<forall>i < length rs. synced (rs ! i)"
proof (rule ccontr)
  assume "\<not> (\<forall>i < length rs. synced (rs ! i))"
  then obtain i where "i < length rs" "\<not> synced (rs ! i)" by blast
  then have "length (filter synced rs) < length rs"
    by (intro length_filter_less[of "rs ! i"]) simp_all
  with assms show False by (simp add: summarise_def)
qed

lemma two_syncs:
  assumes c1: "\<forall>k. T \<le> clock e1 k" and r1: "sync_calls e1 cs force1 w0 = (w1, Inr (Complete s1))"
    and all: "n_synced s1 = length cs"
    and tb: "tables w2 = tables w1"
    and c2: "\<forall>k. clock e2 k < T + 60 * 60 * 1000" and r2: "sync_calls e2 cs False w2 = (w3, res)"
  shows "tables w3 = tables w2 \<and> journal w3 = journal w2
       \<and> (res = Inr (Complete \<lparr>n_synced = 0, n_skipped = length cs, n_failed = 0\<rparr>) \<or> (\<exists>err. res = Inl err))"
proof -
  from r1 have ne: "cs \<noteq> []" by (auto simp: sync_calls_def)
  from r1 ne obtain wa tm1 rs1 where "fetch_transcripts e1 cs 0 Map.empty w0 = (wa, Inr tm1)"
    and p1: "process_calls e1 cs tm1 force1 wa = (w1, rs1)" and s1: "s1 = summarise rs1"
    by (auto simp: sync_calls_def split: prod.splits sum.splits)
  from first_run[OF c1 p1] have len: "length rs1 = length cs" by simp
  from all_synced[of rs1] all s1 len have sy: "\<forall>i < length cs. synced (rs1 ! i)" by simp
  have cov: "\<forall>c \<in> set cs. \<exists>i < length cs. recording_id (cs ! i) = recording_id c \<and> synced (rs1 ! i)"
    using sy by (metis in_set_conv_nth)
  obtain wb fr where f2: "fetch_transcripts e2 cs 0 Map.empty w2 = (wb, fr)"
    by (cases "fetch_transcripts e2 cs 0 Map.empty w2")
  from fetch_transcripts_frame[OF f2] have wb: "tables wb = tables w2" "journal wb = journal w2" by simp_all
  show ?thesis
  proof (cases fr)
    case (Inl err)
    with r2 f2 ne wb show ?thesis by (auto simp: sync_calls_def)
  next
    case (Inr tm2)
    obtain wc rs2 where p2: "process_calls e2 cs tm2 False wb = (wc, rs2)"
      by (cases "process_calls e2 cs tm2 False wb")
    from r2 f2 Inr ne p2 have eq: "w3 = wc" "res = Inr (Complete (summarise rs2))"
      by (simp_all add: sync_calls_def)
    from two_runs[OF c1 p1 _ c2 p2] wb tb cov
    have "tables wc = tables wb \<and> journal wc = journal wb
            \<and> summarise rs2 = \<lparr>n_synced = 0, n_skipped = length cs, n_failed = 0\<rparr>"
      by simp
    with eq wb show ?thesis by simp
  qed
qed

text \<open>
  Claim C3, as the code has it. The window is measured where the code reads the clock, at
  the test of each call, not at the start of the run. (1) The per-call step reports a call
  as skipped exactly when the force flag is absent and the row of the recording exists with
  a \<open>synced_at\<close> later than one hour before the clock reading of the test. (2) A skipped
  call writes nothing. (3) Let a first run of the loop over the calls read the clock at \<open>T\<close>
  or later, and let a second run without the force flag start from the database the first
  one left and read the clock less than one hour after \<open>T\<close> at every reading, so that it
  starts and tests every call within the window: then every call of the second run whose
  recording the first run synced is skipped, and when that holds for all its calls the
  second run leaves the database as it was, commits nothing and counts all calls as
  skipped. (4) The same for the run from the listing on: after a first run that synced
  every call, a second run over the same calls that starts and tests every call within the
  window writes nothing, and it ends with the summary "all skipped" unless the transcript
  fetch throws.
\<close>

theorem sync_twice_within_window:
  "(skipped (snd (processCall e c tm force w)) \<longleftrightarrow>
      \<not> force \<and> (\<exists>row. find (\<lambda>r. rec_id r = recording_id c) (recordings (tables w)) = Some row
                      \<and> clock e (clock_reads w) - 60 * 60 * 1000 < rec_synced_at row))
   \<and> (skipped (snd (processCall e c tm force w)) \<longrightarrow>
        tables (fst (processCall e c tm force w)) = tables w
        \<and> journal (fst (processCall e c tm force w)) = journal w
        \<and> \<not> synced (snd (processCall e c tm force w)))
   \<and> ((\<forall>k. T \<le> clock e1 k) \<and> process_calls e1 cs1 tm1 force1 w0 = (w1, rs1)
        \<and> tables w2 = tables w1
        \<and> (\<forall>k. clock e2 k < T + 60 * 60 * 1000) \<and> process_calls e2 cs2 tm2 False w2 = (w3, rs2) \<longrightarrow>
        (\<forall>j < length cs2.
            (\<exists>i < length cs1. recording_id (cs1 ! i) = recording_id (cs2 ! j) \<and> synced (rs1 ! i)) \<longrightarrow>
            skipped (rs2 ! j) \<and> \<not> synced (rs2 ! j))
        \<and> ((\<forall>c \<in> set cs2. \<exists>i < length cs1. recording_id (cs1 ! i) = recording_id c \<and> synced (rs1 ! i)) \<longrightarrow>
            tables w3 = tables w2 \<and> journal w3 = journal w2
            \<and> summarise rs2 = \<lparr>n_synced = 0, n_skipped = length cs2, n_failed = 0\<rparr>))
   \<and> ((\<forall>k. T \<le> clock e1 k) \<and> sync_calls e1 cs force1 v0 = (v1, Inr (Complete s1)) \<and> n_synced s1 = length cs
        \<and> tables v2 = tables v1
        \<and> (\<forall>k. clock e2 k < T + 60 * 60 * 1000) \<and> sync_calls e2 cs False v2 = (v3, res) \<longrightarrow>
        tables v3 = tables v2 \<and> journal v3 = journal v2
        \<and> (res = Inr (Complete \<lparr>n_synced = 0, n_skipped = length cs, n_failed = 0\<rparr>) \<or> (\<exists>err. res = Inl err)))"
proof (intro conjI)
  show "skipped (snd (processCall e c tm force w)) \<longleftrightarrow>
      \<not> force \<and> (\<exists>row. find (\<lambda>r. rec_id r = recording_id c) (recordings (tables w)) = Some row
                      \<and> clock e (clock_reads w) - 60 * 60 * 1000 < rec_synced_at row)"
    by (rule processCall_skipped_iff)
  show "skipped (snd (processCall e c tm force w)) \<longrightarrow>
        tables (fst (processCall e c tm force w)) = tables w
        \<and> journal (fst (processCall e c tm force w)) = journal w
        \<and> \<not> synced (snd (processCall e c tm force w))"
    using processCall_skipped_frame[of e c tm force w] by blast
  show "(\<forall>k. T \<le> clock e1 k) \<and> process_calls e1 cs1 tm1 force1 w0 = (w1, rs1)
        \<and> tables w2 = tables w1
        \<and> (\<forall>k. clock e2 k < T + 60 * 60 * 1000) \<and> process_calls e2 cs2 tm2 False w2 = (w3, rs2) \<longrightarrow>
        (\<forall>j < length cs2.
            (\<exists>i < length cs1. recording_id (cs1 ! i) = recording_id (cs2 ! j) \<and> synced (rs1 ! i)) \<longrightarrow>
            skipped (rs2 ! j) \<and> \<not> synced (rs2 ! j))
        \<and> ((\<forall>c \<in> set cs2. \<exists>i < length cs1. recording_id (cs1 ! i) = recording_id c \<and> synced (rs1 ! i)) \<longrightarrow>
            tables w3 = tables w2 \<and> journal w3 = journal w2
            \<and> summarise rs2 = \<lparr>n_synced = 0, n_skipped = length cs2, n_failed = 0\<rparr>)"
    using two_runs[of T e1 cs1 tm1 force1 w0 w1 rs1 w2 e2 cs2 tm2 w3 rs2] by blast
  show "(\<forall>k. T \<le> clock e1 k) \<and> sync_calls e1 cs force1 v0 = (v1, Inr (Complete s1)) \<and> n_synced s1 = length cs
        \<and> tables v2 = tables v1
        \<and> (\<forall>k. clock e2 k < T + 60 * 60 * 1000) \<and> sync_calls e2 cs False v2 = (v3, res) \<longrightarrow>
        tables v3 = tables v2 \<and> journal v3 = journal v2
        \<and> (res = Inr (Complete \<lparr>n_synced = 0, n_skipped = length cs, n_failed = 0\<rparr>) \<or> (\<exists>err. res = Inl err))"
    using two_syncs[of T e1 cs force1 v0 v1 s1 v2 e2 v3 res] by blast
qed


theorem sync_twice_within_window_witness:
  "snd (sync_calls (env_of [call0 ''1''] [transcript0 ''1'']) [call0 ''1''] False world0)
     = Inr (Complete \<lparr>n_synced = 1, n_skipped = 0, n_failed = 0\<rparr>)
   \<and> snd (sync_calls (later (env_of [call0 ''1''] [transcript0 ''1'']) 1800000) [call0 ''1''] False
            (fst (sync_calls (env_of [call0 ''1''] [transcript0 ''1'']) [call0 ''1''] False world0)))
     = Inr (Complete \<lparr>n_synced = 0, n_skipped = 1, n_failed = 0\<rparr>)
   \<and> tables (fst (sync_calls (later (env_of [call0 ''1''] [transcript0 ''1'']) 1800000) [call0 ''1''] False
            (fst (sync_calls (env_of [call0 ''1''] [transcript0 ''1'']) [call0 ''1''] False world0))))
     = tables (fst (sync_calls (env_of [call0 ''1''] [transcript0 ''1'']) [call0 ''1''] False world0))
   \<and> journal (fst (sync_calls (later (env_of [call0 ''1''] [transcript0 ''1'']) 1800000) [call0 ''1''] False
            (fst (sync_calls (env_of [call0 ''1''] [transcript0 ''1'']) [call0 ''1''] False world0))))
     = journal (fst (sync_calls (env_of [call0 ''1''] [transcript0 ''1'']) [call0 ''1''] False world0))"
proof -
  let ?e1 = "env_of [call0 ''1''] [transcript0 ''1'']"
  let ?e2 = "later ?e1 1800000"
  let ?v1 = "fst (sync_calls ?e1 [call0 ''1''] False world0)"
  let ?v3 = "fst (sync_calls ?e2 [call0 ''1''] False ?v1)"
  have a: "snd (sync_calls ?e1 [call0 ''1''] False world0) = Inr (Complete \<lparr>n_synced = 1, n_skipped = 0, n_failed = 0\<rparr>)"
    by code_simp
  have b: "snd (sync_calls ?e2 [call0 ''1''] False ?v1) = Inr (Complete \<lparr>n_synced = 0, n_skipped = 1, n_failed = 0\<rparr>)"
    by code_simp
  have c1: "\<forall>k. 0 \<le> clock ?e1 k" by (simp add: env_of_def env0_def)
  have c2: "\<forall>k. clock ?e2 k < 0 + 60 * 60 * 1000" by (simp add: later_def)
  have r1: "sync_calls ?e1 [call0 ''1''] False world0 = (?v1, Inr (Complete \<lparr>n_synced = 1, n_skipped = 0, n_failed = 0\<rparr>))"
    using a by (simp add: prod_eq_iff)
  have r2: "sync_calls ?e2 [call0 ''1''] False ?v1 = (?v3, snd (sync_calls ?e2 [call0 ''1''] False ?v1))"
    by simp
  have "tables ?v3 = tables ?v1 \<and> journal ?v3 = journal ?v1"
    using sync_twice_within_window[THEN conjunct2, THEN conjunct2, THEN conjunct2, rule_format,
             of 0 ?e1 "[call0 ''1'']" False world0 ?v1 "\<lparr>n_synced = 1, n_skipped = 0, n_failed = 0\<rparr>" ?v1 ?e2 ?v3
                "snd (sync_calls ?e2 [call0 ''1''] False ?v1)"]
      c1 c2 r1 r2
    by simp
  with a b show ?thesis by simp
qed

text \<open>
  The claim as the specification states it fails: a second run that starts 30 minutes
  after the first, and so within the window, but reaches the test of the call 61 minutes
  after it, finds the row stale. It syncs the call again: seven commits, and a new
  \<open>synced_at\<close>.
\<close>

theorem second_run_tested_after_window:
  "map_option snd (sync (env_of [call0 ''1''] [transcript0 ''1'']) world0)
     = Some (Inr (Complete \<lparr>n_synced = 1, n_skipped = 0, n_failed = 0\<rparr>))
   \<and> map rec_synced_at (recordings (tables (fst (the (sync (env_of [call0 ''1''] [transcript0 ''1'']) world0)))))
     = [3000]
   \<and> clock (delayed (env_of [call0 ''1''] [transcript0 ''1'']) 2 1800000 3660000) 0 = 1800000
   \<and> map_option snd
        (sync (delayed (env_of [call0 ''1''] [transcript0 ''1'']) 2 1800000 3660000)
           (restart (fst (the (sync (env_of [call0 ''1''] [transcript0 ''1'']) world0)))))
     = Some (Inr (Complete \<lparr>n_synced = 1, n_skipped = 0, n_failed = 0\<rparr>))
   \<and> map rec_synced_at
        (recordings (tables (fst (the
          (sync (delayed (env_of [call0 ''1''] [transcript0 ''1'']) 2 1800000 3660000)
             (restart (fst (the (sync (env_of [call0 ''1''] [transcript0 ''1'']) world0)))))))))
     = [3660000]
   \<and> length (new_commits
        (restart (fst (the (sync (env_of [call0 ''1''] [transcript0 ''1'']) world0))))
        (fst (the
          (sync (delayed (env_of [call0 ''1''] [transcript0 ''1'']) 2 1800000 3660000)
             (restart (fst (the (sync (env_of [call0 ''1''] [transcript0 ''1'']) world0))))))))
     = 7"
proof -
  let ?e1 = "env_of [call0 ''1''] [transcript0 ''1'']"
  let ?e2 = "delayed ?e1 2 1800000 3660000"
  let ?w2 = "restart (fst (the (sync ?e1 world0)))"
  note s1 = sync_env_of[of "[call0 ''1'']" "[transcript0 ''1'']", simplified]
  have h: "getGongAuthHeader ?e2 = Inr (''key'', ''secret'')"
    and cfg: "isGongConfigured ?e2" and av: "argv ?e2 = []"
    and nc: "net_calls ?e2 = serve_pages [\<lparr>records_cursor = None, calls = [call0 ''1'']\<rparr>]"
    and nt: "net_transcripts ?e2 = throttled 0 0 \<lparr>callTranscripts = [transcript0 ''1'']\<rparr>"
    by (simp_all add: getGongAuthHeader_def isGongConfigured_def delayed_def env_of_def env0_def)
  have sw: "sent ?w2 = []" by (simp add: restart_def world0_def)
  have cs: "[call0 ''1''] \<noteq> []" "length [call0 ''1''] \<le> 50" by simp_all
  note s2 = sync_one_page[OF cs h cfg av nc nt sw, unfolded s1 option.sel]
  have a: "map_option snd (sync ?e1 world0) = Some (Inr (Complete \<lparr>n_synced = 1, n_skipped = 0, n_failed = 0\<rparr>))"
    unfolding s1 option.map by code_simp
  have b: "map rec_synced_at (recordings (tables (fst (the (sync ?e1 world0))))) = [3000]"
    unfolding s1 option.sel by code_simp
  have c: "clock ?e2 0 = 1800000" by (simp add: delayed_def)
  have d: "map_option snd (sync ?e2 ?w2) = Some (Inr (Complete \<lparr>n_synced = 1, n_skipped = 0, n_failed = 0\<rparr>))"
    unfolding s1 option.sel s2 option.map by code_simp
  have e: "map rec_synced_at (recordings (tables (fst (the (sync ?e2 ?w2))))) = [3660000]"
    unfolding s1 option.sel s2 by code_simp
  have f: "length (new_commits ?w2 (fst (the (sync ?e2 ?w2)))) = 7"
    unfolding s1 option.sel s2 by code_simp
  show ?thesis by (intro conjI a b c d e f)
qed

end
